theory Spec2Isabelle
  imports Complex_Main
begin

section \<open>The particle canvas of script.js\<close>

text \<open>
  A shallow embedding of \<^verbatim>\<open>src/script.js\<close>: the particle class, the pool and
  its (re)initialisation, the render loop with its frame-request handle, the light burst
  and the event handlers, over an explicit program state.

  Conventions of the embedding.
  \<^item> JavaScript numbers are modelled exactly: the integer-valued ones (\<^verbatim>\<open>innerWidth\<close>,
    \<^verbatim>\<open>life\<close>, the burst's \<^verbatim>\<open>t\<close>, frame-request handles) as \<open>nat\<close> or \<open>int\<close>, the
    others as \<open>real\<close>. Rounding of IEEE doubles is not modelled.
  \<^item> \<^verbatim>\<open>Math.random()\<close> reads an explicit random source, a sequence of reals that
    every function consuming randomness takes and returns advanced. The host promises
    draws in \<open>[0, 1)\<close>; theorems that need it assume \<open>rng_ok\<close>.
  \<^item> A CSS colour string \<^verbatim>\<open>'rgba(r,g,b,a)'\<close> is modelled by its four components.
  \<^item> Arrays live in a store and variables hold addresses, so that two references to
    one array, or to two different arrays, can be told apart.
\<close>

subsection \<open>Helpers of the host language\<close>

type_synonym rng = "nat \<Rightarrow> real"

definition rng_ok :: "rng \<Rightarrow> bool" where
  "rng_ok g = (\<forall>n. 0 \<le> g n \<and> g n < 1)"

definition rng_drop :: "nat \<Rightarrow> rng \<Rightarrow> rng" where
  \<comment> \<open>the source after \<open>k\<close> calls of \<^verbatim>\<open>Math.random()\<close>\<close>
  "rng_drop k g = (\<lambda>n. g (n + k))"

definition js_round :: "real \<Rightarrow> int" where
  \<comment> \<open>\<^verbatim>\<open>Math.round\<close>: the nearest integer, a tie going up\<close>
  "js_round q = \<lfloor>q + 1 / 2\<rfloor>"

datatype rgba = Rgba int int int real

definition palette_at :: "rgba list \<Rightarrow> int \<Rightarrow> rgba option" where
  \<comment> \<open>\<^verbatim>\<open>palette[i]\<close>; an index out of range reads \<^verbatim>\<open>undefined\<close>, here \<open>None\<close>\<close>
  "palette_at pal i = (if 0 \<le> i \<and> nat i < length pal then Some (pal ! nat i) else None)"

subsection \<open>Particle\<close>

record particle =
  x :: real
  y :: real
  vy :: real
  vx :: real
  size' :: real
  life :: int
  ttl :: real
  color :: "rgba option"
  alpha :: real
  spin :: real

definition reset :: "nat \<Rightarrow> nat \<Rightarrow> rgba list \<Rightarrow> rng \<Rightarrow> particle \<Rightarrow> particle \<times> rng" where
  \<comment> \<open>\<^verbatim>\<open>Particle.reset\<close>, reading the globals \<^verbatim>\<open>W\<close>, \<^verbatim>\<open>H\<close> and \<^verbatim>\<open>palette\<close>;
      nine draws, in the order of the source's assignments\<close>
  "reset w h pal g p =
     (p\<lparr>x := g 0 * real w,
        y := g 1 * - real h * 0.5,
        vy := 0.2 + g 2 * 1.2,
        vx := (g 3 - 0.5) * 0.6,
        size' := 1 + g 4 * 4,
        life := 0,
        ttl := 80 + g 5 * 220,
        color := palette_at pal \<lfloor>g 6 * real (length pal)\<rfloor>,
        alpha := 0.08 + g 7 * 0.9,
        spin := g 8 * 0.06 - 0.03\<rparr>,
      rng_drop 9 g)"

definition advance :: "particle \<Rightarrow> particle" where
  \<comment> \<open>the first four statements of \<^verbatim>\<open>Particle.update\<close>, before the reset test\<close>
  "advance p =
     (let p1 = p\<lparr>x := x p + vx p\<rparr>;
          p2 = p1\<lparr>y := y p1 + vy p1\<rparr>;
          p3 = p2\<lparr>vx := vx p2 + sin (real_of_int (life p2) * 0.01) * 0.002\<rparr>
      in p3\<lparr>life := life p3 + 1\<rparr>)"

definition expired :: "nat \<Rightarrow> particle \<Rightarrow> bool" where
  \<comment> \<open>the test \<^verbatim>\<open>this.y > H + 20 || this.life > this.ttl\<close>\<close>
  "expired h p = (y p > real h + 20 \<or> real_of_int (life p) > ttl p)"

definition update :: "nat \<Rightarrow> nat \<Rightarrow> rgba list \<Rightarrow> rng \<Rightarrow> particle \<Rightarrow> particle \<times> rng" where
  \<comment> \<open>\<^verbatim>\<open>Particle.update\<close>\<close>
  "update w h pal g p =
     (let p' = advance p in if expired h p' then reset w h pal g p' else (p', g))"

definition new_particle :: "nat \<Rightarrow> nat \<Rightarrow> rgba list \<Rightarrow> rng \<Rightarrow> particle \<times> rng" where
  \<comment> \<open>\<^verbatim>\<open>new Particle()\<close>: the constructor calls \<^verbatim>\<open>reset\<close> on the fresh object,
      whose fields are all unset; reset assigns every one of them\<close>
  "new_particle w h pal g =
     reset w h pal g
       \<lparr>x = 0, y = 0, vy = 0, vx = 0, size' = 0, life = 0, ttl = 0,
        color = None, alpha = 0, spin = 0\<rparr>"

fun update_n :: "nat \<Rightarrow> nat \<Rightarrow> nat \<Rightarrow> rgba list \<Rightarrow> rng \<Rightarrow> particle \<Rightarrow> particle \<times> rng" where
  \<comment> \<open>\<open>n\<close> successive calls of \<^verbatim>\<open>update\<close> on one particle\<close>
  "update_n 0 w h pal g p = (p, g)"
| "update_n (Suc n) w h pal g p =
     (case update w h pal g p of (p', g') \<Rightarrow> update_n n w h pal g' p')"

subsection \<open>The drawing surface\<close>

text \<open>
  The surface is the list of what has been painted since it was last cleared; the blank
  surface is the empty list. The canvas has the size \<^verbatim>\<open>W\<close> by \<^verbatim>\<open>H\<close> whenever a
  handler runs (both are assigned together in \<^verbatim>\<open>resize\<close>), so
  \<^verbatim>\<open>clearRect(0,0,W,H)\<close> clears all of it.
\<close>

datatype paint =
    Overlay nat nat
    \<comment> \<open>the gradient filled over \<^verbatim>\<open>(0,0,W,H)\<close>\<close>
  | Flake real real real real real "rgba option"
    \<comment> \<open>a particle: position x, y, rotation, global alpha, size, colour\<close>
  | Glow real real real real
    \<comment> \<open>a burst's radial gradient: centre x, y, outer radius, inner alpha\<close>

definition draw :: "particle \<Rightarrow> paint" where
  \<comment> \<open>\<^verbatim>\<open>Particle.draw\<close>; the path of the polygon is not modelled\<close>
  "draw p =
     Flake (x p) (y p) (real_of_int (life p) * spin p) (max 0.05 (min (alpha p) 0.95))
       (size' p) (color p)"

subsection \<open>Light burst\<close>

record rect =
  left :: real
  top' :: real
  width :: real
  height :: real

text \<open>The variables the closure \<^verbatim>\<open>frame\<close> of \<^verbatim>\<open>burstLight\<close> captures.\<close>

record burst =
  cx :: real
  cy :: real
  r :: real
  t :: int

definition duration :: int where
  "duration = 420"

definition spawn :: "rect \<Rightarrow> burst" where
  \<comment> \<open>the locals of \<^verbatim>\<open>burstLight(el)\<close>, from \<^verbatim>\<open>el.getBoundingClientRect()\<close>\<close>
  "spawn el =
     \<lparr>cx = left el + width el / 2, cy = top' el + height el / 2,
      r = max (width el) (height el) * 1.6, t = 0\<rparr>"

definition tick :: "burst \<Rightarrow> burst" where
  \<comment> \<open>\<^verbatim>\<open>t += 16\<close>\<close>
  "tick b = b\<lparr>t := t b + 16\<rparr>"

definition progress :: "burst \<Rightarrow> real" where
  \<comment> \<open>\<^verbatim>\<open>t / duration\<close>, read after the increment\<close>
  "progress b = real_of_int (t b) / real_of_int duration"

definition glow :: "burst \<Rightarrow> paint" where
  "glow b = Glow (cx b) (cy b) (r b * (0.4 + progress b)) (0.35 * (1 - progress b))"

function chain :: "burst \<Rightarrow> burst list" where
  \<comment> \<open>the closure's variables at each tick of the chain of \<^verbatim>\<open>frame\<close> calls that starts
      from \<open>b\<close>: a tick paints, then requests the next one while \<^verbatim>\<open>t < duration\<close>\<close>
  "chain b = (let b' = tick b in b' # (if t b' < duration then chain b' else []))"
  by pat_completeness auto
termination
  by (relation "measure (\<lambda>b. nat (duration - t b))") (auto simp: tick_def)

declare chain.simps [simp del]

subsection \<open>Program state\<close>

datatype callback = CbRender | CbFrame burst

record state =
  W :: nat
  H :: nat
  PARTICLE_COUNT :: int
  prefersReduced :: bool
  palette :: "rgba list"
  store :: "particle list list"
  particles :: nat
  api_particles :: "nat option"
  rafId :: "nat option"
  callbacks :: "(nat \<times> callback) list"
  next_handle :: nat
  surface :: "paint list"
  rnd :: rng
  checked :: bool
  loop_requests :: nat

text \<open>
  \<^item> \<open>store\<close> holds every array allocated so far, an array's address being its index;
    \<open>particles\<close> is the address the variable \<^verbatim>\<open>particles\<close> holds and
    \<open>api_particles\<close> the one \<^verbatim>\<open>window._TecladoHielo.particles\<close> holds (\<open>None\<close>
    until the last statement of the script sets it).
  \<^item> \<open>rafId\<close> is \<open>None\<close> for \<^verbatim>\<open>null\<close>.
  \<^item> \<open>callbacks\<close> and \<open>next_handle\<close> are the host's list of animation frame callbacks,
    each with its handle, and the handle the next request returns; handles start at 1.
  \<^item> \<open>checked\<close> is \<^verbatim>\<open>motionToggle.checked\<close>.
  \<^item> \<open>loop_requests\<close> is a ghost counter of the calls
    \<^verbatim>\<open>requestAnimationFrame(render)\<close> made so far; no code reads it.
\<close>

definition palette0 :: "rgba list" where
  \<comment> \<open>the palette as the script declares it\<close>
  "palette0 = [Rgba 127 227 255 0.9, Rgba 123 216 255 0.85,
               Rgba 190 245 255 0.6, Rgba 170 230 255 0.5]"

definition deref :: "particle list list \<Rightarrow> nat \<Rightarrow> particle list" where
  "deref st a = (if a < length st then st ! a else [])"

definition pool :: "state \<Rightarrow> particle list" where
  \<comment> \<open>the array the variable \<^verbatim>\<open>particles\<close> refers to\<close>
  "pool s = deref (store s) (particles s)"

definition requestAnimationFrame :: "callback \<Rightarrow> state \<Rightarrow> nat \<times> state" where
  "requestAnimationFrame cb s =
     (next_handle s,
      s\<lparr>callbacks := callbacks s @ [(next_handle s, cb)], next_handle := next_handle s + 1\<rparr>)"

definition to_handle :: "nat option \<Rightarrow> nat" where
  \<comment> \<open>the argument of \<^verbatim>\<open>cancelAnimationFrame\<close> as a number: \<^verbatim>\<open>null\<close> is 0\<close>
  "to_handle v = (case v of None \<Rightarrow> 0 | Some k \<Rightarrow> k)"

definition cancelAnimationFrame :: "nat option \<Rightarrow> state \<Rightarrow> state" where
  "cancelAnimationFrame v s =
     s\<lparr>callbacks := filter (\<lambda>e. fst e \<noteq> to_handle v) (callbacks s)\<rparr>"

definition falsy :: "nat option \<Rightarrow> bool" where
  \<comment> \<open>\<^verbatim>\<open>!rafId\<close>: true of \<^verbatim>\<open>null\<close> and of 0\<close>
  "falsy v = (v = None \<or> v = Some 0)"

subsection \<open>Pool initialisation and resize\<close>

fun make :: "nat \<Rightarrow> nat \<Rightarrow> nat \<Rightarrow> rgba list \<Rightarrow> rng \<Rightarrow> particle list \<times> rng" where
  \<comment> \<open>the loop of \<^verbatim>\<open>initParticles\<close>, run \<open>n\<close> times\<close>
  "make 0 w h pal g = ([], g)"
| "make (Suc n) w h pal g =
     (case new_particle w h pal g of
        (p, g') \<Rightarrow> (case make n w h pal g' of (ps, g'') \<Rightarrow> (p # ps, g'')))"

definition initParticles :: "state \<Rightarrow> state" where
  \<comment> \<open>\<^verbatim>\<open>particles = []\<close> allocates a new array and stores its address in the variable\<close>
  "initParticles s =
     (case make (nat (max 20 (PARTICLE_COUNT s))) (W s) (H s) (palette s) (rnd s) of
        (ps, g) \<Rightarrow> s\<lparr>store := store s @ [ps], particles := length (store s), rnd := g\<rparr>)"

definition resize :: "nat \<Rightarrow> nat \<Rightarrow> state \<Rightarrow> state" where
  \<comment> \<open>\<open>w\<close>, \<open>h\<close> are \<^verbatim>\<open>innerWidth\<close>, \<^verbatim>\<open>innerHeight\<close> when the handler runs; assigning
      a canvas's width or height resets its bitmap\<close>
  "resize w h s = initParticles (s\<lparr>W := w, H := h, surface := []\<rparr>)"

subsection \<open>Render loop\<close>

fun update_draw ::
  "nat \<Rightarrow> nat \<Rightarrow> rgba list \<Rightarrow> rng \<Rightarrow> particle list \<Rightarrow> (particle list \<times> paint list) \<times> rng" where
  \<comment> \<open>\<^verbatim>\<open>for (let p of particles) { p.update(); p.draw(); }\<close>\<close>
  "update_draw w h pal g [] = (([], []), g)"
| "update_draw w h pal g (p # ps) =
     (case update w h pal g p of
        (p', g') \<Rightarrow>
          (case update_draw w h pal g' ps of
             ((ps', ds), g'') \<Rightarrow> ((p' # ps', draw p' # ds), g'')))"

definition render :: "state \<Rightarrow> state" where
  "render s =
     (case update_draw (W s) (H s) (palette s) (rnd s) (pool s) of
        ((ps, ds), g) \<Rightarrow>
          (let s1 = s\<lparr>store := (store s)[particles s := ps],
                      surface := Overlay (W s) (H s) # ds, rnd := g\<rparr>
           in if \<not> prefersReduced s1
              then (case requestAnimationFrame CbRender s1 of
                      (k, s2) \<Rightarrow> s2\<lparr>rafId := Some k, loop_requests := loop_requests s2 + 1\<rparr>)
              else s1))"

subsection \<open>Burst frames\<close>

definition frame :: "burst \<Rightarrow> state \<Rightarrow> state" where
  \<comment> \<open>one call of the closure \<^verbatim>\<open>frame\<close> whose variables are \<open>b\<close>\<close>
  "frame b s =
     (let b' = tick b;
          s1 = s\<lparr>surface := surface s @ [glow b']\<rparr>
      in if t b' < duration then snd (requestAnimationFrame (CbFrame b') s1) else s1)"

definition burstLight :: "rect \<Rightarrow> state \<Rightarrow> state" where
  "burstLight el s = snd (requestAnimationFrame (CbFrame (spawn el)) s)"

definition keyPulse :: "rect \<Rightarrow> state \<Rightarrow> state" where
  \<comment> \<open>\<^verbatim>\<open>el.animate\<close> styles the element only\<close>
  "keyPulse el s = burstLight el s"

subsection \<open>Event handlers\<close>

definition motionToggle_change :: "bool \<Rightarrow> state \<Rightarrow> state" where
  \<comment> \<open>the \<^verbatim>\<open>change\<close> listener; \<open>c\<close> is \<^verbatim>\<open>e.target.checked\<close>\<close>
  "motionToggle_change c s0 =
     (let s = s0\<lparr>checked := c\<rparr>
      in if \<not> c then (cancelAnimationFrame (rafId s) s)\<lparr>rafId := None, surface := []\<rparr>
         else if falsy (rafId s) then render s else s)"

definition visibilitychange :: "bool \<Rightarrow> state \<Rightarrow> state" where
  \<comment> \<open>the \<^verbatim>\<open>visibilitychange\<close> listener; \<open>hidden\<close> is \<^verbatim>\<open>document.hidden\<close>\<close>
  "visibilitychange hidden s =
     (if hidden then (cancelAnimationFrame (rafId s) s)\<lparr>rafId := None\<rparr>
      else if falsy (rafId s) \<and> checked s \<and> \<not> prefersReduced s then render s else s)"

fun randomize :: "rgba list \<Rightarrow> rng \<Rightarrow> rgba list \<times> rng" where
  \<comment> \<open>the loop of the \<^verbatim>\<open>randomizeBtn\<close> listener over the palette's entries: four draws
      each, the first for the unused \<^verbatim>\<open>shift\<close>\<close>
  "randomize [] g = ([], g)"
| "randomize (c # cs) g =
     (case randomize cs (rng_drop 4 g) of
        (cs', g') \<Rightarrow>
          (Rgba (120 + \<lfloor>g 1 * 120\<rfloor>) (180 + \<lfloor>g 2 * 70\<rfloor>) 255 (0.6 + g 3 * 0.35) # cs', g'))"

definition randomizeBtn_click :: "state \<Rightarrow> state" where
  "randomizeBtn_click s =
     (case randomize (palette s) (rnd s) of (pal, g) \<Rightarrow> s\<lparr>palette := pal, rnd := g\<rparr>)"

subsection \<open>The host's frame and the script's run\<close>

fun run_callback :: "callback \<Rightarrow> state \<Rightarrow> state" where
  "run_callback CbRender s = render s"
| "run_callback (CbFrame b) s = frame b s"

fun run_callbacks :: "(nat \<times> callback) list \<Rightarrow> state \<Rightarrow> state" where
  "run_callbacks [] s = s"
| "run_callbacks (e # es) s = run_callbacks es (run_callback (snd e) s)"

definition animation_frame :: "state \<Rightarrow> state" where
  \<comment> \<open>the host runs the callbacks requested before this frame, in order; requests made
      while they run wait for the next frame\<close>
  "animation_frame s = run_callbacks (callbacks s) (s\<lparr>callbacks := []\<rparr>)"

definition start :: "nat \<Rightarrow> nat \<Rightarrow> state \<Rightarrow> state" where
  \<comment> \<open>\<^verbatim>\<open>start()\<close>; the listeners it registers are the events below\<close>
  "start w h s = (let s1 = resize w h s in if \<not> prefersReduced s1 then render s1 else s1)"

definition load :: "nat \<Rightarrow> nat \<Rightarrow> bool \<Rightarrow> bool \<Rightarrow> rng \<Rightarrow> state" where
  \<comment> \<open>the script run once, top to bottom: the window is \<open>w\<close> by \<open>h\<close>, \<open>reduced\<close> is the
      media query's answer, \<open>chk\<close> the checkbox's initial state\<close>
  "load w h reduced chk g =
     (let s0 = \<lparr>W = w, H = h, PARTICLE_COUNT = js_round (real (w * h) / 70000),
                prefersReduced = reduced,
                palette = palette0,
                store = [[]], particles = 0, api_particles = None, rafId = None,
                callbacks = [], next_handle = 1, surface = [], rnd = g, checked = chk,
                loop_requests = 0\<rparr>;
          s1 = start w h s0
      in s1\<lparr>api_particles := Some (particles s1)\<rparr>)"

datatype event =
    Resize nat nat
  | MotionToggle bool
  | RandomizeClick
  | KeyPulse rect
  | VisibilityChange bool
  | AnimationFrame
  | CallInitParticles
  | CallBurstLight rect

text \<open>
  \<open>KeyPulse\<close> is a pointer press, or Enter or Space, on a key; the last two events are
  calls of the functions \<^verbatim>\<open>window._TecladoHielo\<close> exposes.
\<close>

fun step :: "event \<Rightarrow> state \<Rightarrow> state" where
  "step (Resize w h) s = resize w h s"
| "step (MotionToggle c) s = motionToggle_change c s"
| "step RandomizeClick s = randomizeBtn_click s"
| "step (KeyPulse el) s = keyPulse el s"
| "step (VisibilityChange hidden) s = visibilitychange hidden s"
| "step AnimationFrame s = animation_frame s"
| "step CallInitParticles s = initParticles s"
| "step (CallBurstLight el) s = burstLight el s"

fun run :: "event list \<Rightarrow> state \<Rightarrow> state" where
  "run [] s = s"
| "run (e # es) s = run es (step e s)"

definition loop_handles :: "(nat \<times> callback) list \<Rightarrow> nat list" where
  \<comment> \<open>the handles of the outstanding requests for \<^verbatim>\<open>render\<close>\<close>
  "loop_handles cbs = map fst (filter (\<lambda>e. snd e = CbRender) cbs)"

subsection \<open>Notions used to state the properties\<close>

text \<open>None of the next \<open>n\<close> calls of \<^verbatim>\<open>update\<close> resets the particle.\<close>

fun survives :: "nat \<Rightarrow> nat \<Rightarrow> particle \<Rightarrow> bool" where
  "survives 0 h p = True"
| "survives (Suc n) h p = (\<not> expired h (advance p) \<and> survives n h (advance p))"

text \<open>
  The position test \<^verbatim>\<open>this.y > H + 20\<close> fails in each of the next \<open>n\<close> calls of
  \<^verbatim>\<open>update\<close>, as long as none of them resets the particle.
\<close>

fun y_within :: "nat \<Rightarrow> nat \<Rightarrow> particle \<Rightarrow> bool" where
  "y_within 0 h p = True"
| "y_within (Suc n) h p = (y (advance p) \<le> real h + 20 \<and> y_within n h (advance p))"

text \<open>
  The colour the \<^verbatim>\<open>randomizeBtn\<close> listener stores in entry \<open>i\<close> when it starts with the
  random source \<open>g\<close>: entry \<open>i\<close> uses the draws \<open>4i + 1\<close> to \<open>4i + 3\<close>.
\<close>

definition new_entry :: "rng \<Rightarrow> nat \<Rightarrow> rgba" where
  "new_entry g i =
     Rgba (120 + \<lfloor>g (4 * i + 1) * 120\<rfloor>) (180 + \<lfloor>g (4 * i + 2) * 70\<rfloor>) 255
       (0.6 + g (4 * i + 3) * 0.35)"

definition handle_list :: "nat option \<Rightarrow> nat list" where
  \<comment> \<open>the handle \<^verbatim>\<open>rafId\<close> holds, as a list: empty for \<^verbatim>\<open>null\<close>\<close>
  "handle_list v = (case v of None \<Rightarrow> [] | Some k \<Rightarrow> [k])"

text \<open>
  The invariant of the render loop: the outstanding requests for \<^verbatim>\<open>render\<close> are
  exactly the one \<^verbatim>\<open>rafId\<close> names, if it names one; handles are positive; under
  reduced motion no request was ever made.
\<close>

definition loop_inv :: "state \<Rightarrow> bool" where
  "loop_inv s =
     (loop_handles (callbacks s) = handle_list (rafId s) \<and> rafId s \<noteq> Some 0 \<and>
      0 < next_handle s \<and>
      (prefersReduced s \<longrightarrow> rafId s = None \<and> loop_requests s = 0))"

text \<open>The variable \<^verbatim>\<open>particles\<close> refers to an array of the size the script computed.\<close>

definition pool_inv :: "state \<Rightarrow> bool" where
  "pool_inv s =
     (particles s < length (store s) \<and> length (pool s) = nat (max 20 (PARTICLE_COUNT s)))"

text \<open>A particle's age is within its time to live.\<close>

definition particle_ok :: "particle \<Rightarrow> bool" where
  "particle_ok p = (0 \<le> life p \<and> real_of_int (life p) \<le> ttl p)"

text \<open>Every particle of every array is so, and the random source keeps its promise.\<close>

definition store_ok :: "state \<Rightarrow> bool" where
  "store_ok s = (list_all (list_all particle_ok) (store s) \<and> rng_ok (rnd s))"

subsection \<open>Concrete inputs\<close>

definition const_rng :: "real \<Rightarrow> rng" where
  \<comment> \<open>a random source every draw of which is \<open>c\<close>\<close>
  "const_rng c = (\<lambda>n. c)"

definition fresh0 :: particle where
  \<comment> \<open>a particle as the constructor leaves it on a surface of 1000 by 1000 when every
      draw is 0: at the top, with \<open>vy = 0.2\<close> and \<open>ttl = 80\<close>\<close>
  "fresh0 = fst (new_particle 1000 1000 palette0 (const_rng 0))"

definition falling0 :: particle where
  \<comment> \<open>a young particle at the lower bound of a surface 1000 high\<close>
  "falling0 = \<lparr>x = 10, y = 1020, vy = 1/5, vx = 0, size' = 1, life = 3, ttl = 80,
               color = None, alpha = 1/2, spin = 0\<rparr>"

definition key0 :: rect where
  \<comment> \<open>the bounding rectangle of some key\<close>
  "key0 = \<lparr>left = 100, top' = 200, width = 60, height = 60\<rparr>"

subsection \<open>Facts about a particle\<close>

lemma rng_drop_ok: "rng_ok g \<Longrightarrow> rng_ok (rng_drop k g)"
  by (simp add: rng_ok_def rng_drop_def)

lemma reset_any: "reset w h pal g p = reset w h pal g q"
  by (simp add: reset_def)

lemma advance_fields:
  "y (advance p) = y p + vy p" "vy (advance p) = vy p" "life (advance p) = life p + 1"
  "ttl (advance p) = ttl p" "color (advance p) = color p" "alpha (advance p) = alpha p"
  "spin (advance p) = spin p" "size' (advance p) = size' p" "x (advance p) = x p + vx p"
  by (simp_all add: advance_def Let_def)

lemma reset_fields:
  "life (fst (reset w h pal g p)) = 0"
  "ttl (fst (reset w h pal g p)) = 80 + g 5 * 220"
  "color (fst (reset w h pal g p)) = palette_at pal \<lfloor>g 6 * real (length pal)\<rfloor>"
  "snd (reset w h pal g p) = rng_drop 9 g"
  by (simp_all add: reset_def)

lemma update_expired: "expired h (advance p) \<Longrightarrow> update w h pal g p = reset w h pal g (advance p)"
  by (simp add: update_def)

lemma update_alive: "\<not> expired h (advance p) \<Longrightarrow> update w h pal g p = (advance p, g)"
  by (simp add: update_def)

lemma update_n_survives:
  "survives n h p \<Longrightarrow> update_n n w h pal g p = ((advance ^^ n) p, g)"
  by (induction n arbitrary: p) (simp_all add: update_alive funpow_swap1)

lemma update_n_Suc_end:
  "update_n (Suc n) w h pal g p =
     (case update_n n w h pal g p of (p', g') \<Rightarrow> update w h pal g' p')"
proof (induction n arbitrary: p g)
  case 0
  show ?case by (simp split: prod.splits)
next
  case (Suc n)
  obtain p1 g1 where u: "update w h pal g p = (p1, g1)" by (cases "update w h pal g p")
  have "update_n (Suc (Suc n)) w h pal g p = update_n (Suc n) w h pal g1 p1"
    using u by (simp del: update_n.simps(2) add: update_n.simps(2)[of "Suc n"])
  also have "\<dots> = (case update_n n w h pal g1 p1 of (p', g') \<Rightarrow> update w h pal g' p')"
    by (rule Suc.IH)
  also have "update_n n w h pal g1 p1 = update_n (Suc n) w h pal g p"
    using u by simp
  finally show ?case .
qed

lemma advance_pow_fields:
  "life ((advance ^^ n) p) = life p + int n"
  "ttl ((advance ^^ n) p) = ttl p"
  "vy ((advance ^^ n) p) = vy p"
  "color ((advance ^^ n) p) = color p"
  by (induction n) (simp_all add: advance_fields)

lemma survivesI:
  "y_within n h p \<Longrightarrow> real_of_int (life p + int n) \<le> ttl p \<Longrightarrow> survives n h p"
proof (induction n arbitrary: p)
  case 0
  then show ?case by simp
next
  case (Suc n)
  have "real_of_int (life p + 1) \<le> real_of_int (life p + int (Suc n))" by simp
  with Suc.prems(2) have a: "real_of_int (life p + 1) \<le> ttl p" by linarith
  have "survives n h (advance p)"
    using Suc.prems by (intro Suc.IH) (simp_all add: advance_fields add.assoc)
  with a Suc.prems(1) show ?case by (simp add: expired_def advance_fields)
qed

lemma y_within_mono: "y_within (Suc n) h p \<Longrightarrow> y_within n h p"
  by (induction n arbitrary: p) simp_all

lemma y_withinI:
  "0 \<le> vy p \<Longrightarrow> y p + real n * vy p \<le> real h + 20 \<Longrightarrow> y_within n h p"
proof (induction n arbitrary: p)
  case 0
  then show ?case by simp
next
  case (Suc n)
  have "y p + vy p \<le> y p + real (Suc n) * vy p"
    using Suc.prems(1) by (simp add: algebra_simps)
  with Suc.prems(2) have a: "y (advance p) \<le> real h + 20" by (simp add: advance_fields)
  have "y_within n h (advance p)"
    using Suc.prems by (intro Suc.IH) (simp_all add: advance_fields algebra_simps)
  with a show ?case by simp
qed

lemma fresh0_fields:
  "y fresh0 = 0" "vy fresh0 = 1/5" "life fresh0 = 0" "ttl fresh0 = 80"
  by (simp_all add: fresh0_def new_particle_def reset_def const_rng_def)

subsection \<open>Facts about a burst\<close>

lemma chain_last: "\<not> t (tick b) < duration \<Longrightarrow> chain b = [tick b]"
  by (subst chain.simps) (simp add: Let_def)

lemma chain_more: "t (tick b) < duration \<Longrightarrow> chain b = tick b # chain (tick b)"
  by (subst chain.simps) (simp add: Let_def)

lemma tick_t: "t (tick b) = t b + 16"
  by (simp add: tick_def)

lemma chain_from:
  "t b = 16 * int k \<Longrightarrow> k \<le> 26 \<Longrightarrow>
     map t (chain b) = map (\<lambda>i. 16 * int i) [Suc k ..< 28]"
proof (induction "26 - k" arbitrary: b k)
  case 0
  then have k: "k = 26" by simp
  with "0.prems" have "\<not> t (tick b) < duration" by (simp add: tick_t duration_def)
  then show ?case using "0.prems" k by (simp add: chain_last tick_t)
next
  case (Suc m)
  then have lt: "k < 26" by simp
  with Suc.prems have "t (tick b) < duration" by (simp add: tick_t duration_def)
  then have c: "chain b = tick b # chain (tick b)" by (rule chain_more)
  have "map t (chain (tick b)) = map (\<lambda>i. 16 * int i) [Suc (Suc k) ..< 28]"
    using Suc.hyps(2) Suc.prems lt by (intro Suc.hyps(1)) (simp_all add: tick_t)
  moreover have "[Suc k ..< 28] = Suc k # [Suc (Suc k) ..< 28]"
    using lt by (simp add: upt_conv_Cons)
  ultimately show ?case using c Suc.prems by (simp add: tick_t)
qed

lemma chain_spawn_t: "map t (chain (spawn el)) = map (\<lambda>i. 16 * int i) [1 ..< 28]"
  using chain_from[of "spawn el" 0] by (simp add: spawn_def)

lemma chain_spawn_progress:
  "map progress (chain (spawn el)) = map (\<lambda>i. real (16 * i) / 420) [1 ..< 28]"
proof -
  have "map progress (chain (spawn el)) = map (\<lambda>v. real_of_int v / 420) (map t (chain (spawn el)))"
    by (simp add: progress_def duration_def)
  also have "\<dots> = map (\<lambda>i. real (16 * i) / 420) [1 ..< 28]"
    unfolding chain_spawn_t by simp
  finally show ?thesis .
qed

lemma chain_spawn_length: "length (chain (spawn el)) = 27"
  using arg_cong[OF chain_spawn_t[of el], of length] by simp

lemma progress_sorted: "sorted_wrt (<) (map (\<lambda>i. real (16 * i) / 420) [a ..< b])"
  by (simp add: sorted_wrt_map sorted_wrt_iff_nth_less)

lemma ticks_ceiling: "nat \<lceil>real_of_int duration / 16\<rceil> = 27"
  by (simp add: duration_def)

lemma progress_early: "list_all (\<lambda>q. 0 < q \<and> q < 1) (map (\<lambda>i. real (16 * i) / 420) [1 ..< 27])"
  by (auto simp: list_all_iff)

lemma take_progress: "take 26 (map (\<lambda>i. real (16 * i) / 420) [1 ..< 28]) = map (\<lambda>i. real (16 * i) / 420) [1 ..< 27]"
  by (simp add: take_map)

lemma chain_spawn_last: "t (last (chain (spawn el))) = 432"
proof -
  have ne: "chain (spawn el) \<noteq> []" using chain_spawn_length[of el] by auto
  have "t (last (chain (spawn el))) = last (map t (chain (spawn el)))"
    using ne by (simp add: last_map)
  then show ?thesis by (simp add: chain_spawn_t last_map)
qed

subsection \<open>What each operation changes\<close>

lemma requestAnimationFrame_fields:
  "fst (requestAnimationFrame cb s) = next_handle s"
  "callbacks (snd (requestAnimationFrame cb s)) = callbacks s @ [(next_handle s, cb)]"
  "next_handle (snd (requestAnimationFrame cb s)) = next_handle s + 1"
  "rafId (snd (requestAnimationFrame cb s)) = rafId s"
  "prefersReduced (snd (requestAnimationFrame cb s)) = prefersReduced s"
  "loop_requests (snd (requestAnimationFrame cb s)) = loop_requests s"
  "surface (snd (requestAnimationFrame cb s)) = surface s"
  "store (snd (requestAnimationFrame cb s)) = store s"
  "particles (snd (requestAnimationFrame cb s)) = particles s"
  "api_particles (snd (requestAnimationFrame cb s)) = api_particles s"
  "PARTICLE_COUNT (snd (requestAnimationFrame cb s)) = PARTICLE_COUNT s"
  "palette (snd (requestAnimationFrame cb s)) = palette s"
  "rnd (snd (requestAnimationFrame cb s)) = rnd s"
  "checked (snd (requestAnimationFrame cb s)) = checked s"
  "W (snd (requestAnimationFrame cb s)) = W s"
  "H (snd (requestAnimationFrame cb s)) = H s"
  by (simp_all add: requestAnimationFrame_def)

lemma cancelAnimationFrame_fields:
  "callbacks (cancelAnimationFrame v s) = filter (\<lambda>e. fst e \<noteq> to_handle v) (callbacks s)"
  "next_handle (cancelAnimationFrame v s) = next_handle s"
  "rafId (cancelAnimationFrame v s) = rafId s"
  "prefersReduced (cancelAnimationFrame v s) = prefersReduced s"
  "loop_requests (cancelAnimationFrame v s) = loop_requests s"
  "surface (cancelAnimationFrame v s) = surface s"
  "store (cancelAnimationFrame v s) = store s"
  "particles (cancelAnimationFrame v s) = particles s"
  "api_particles (cancelAnimationFrame v s) = api_particles s"
  "PARTICLE_COUNT (cancelAnimationFrame v s) = PARTICLE_COUNT s"
  "palette (cancelAnimationFrame v s) = palette s"
  "rnd (cancelAnimationFrame v s) = rnd s"
  "checked (cancelAnimationFrame v s) = checked s"
  "W (cancelAnimationFrame v s) = W s"
  "H (cancelAnimationFrame v s) = H s"
  by (simp_all add: cancelAnimationFrame_def)

lemma initParticles_fields:
  "store (initParticles s) =
     store s @ [fst (make (nat (max 20 (PARTICLE_COUNT s))) (W s) (H s) (palette s) (rnd s))]"
  "particles (initParticles s) = length (store s)"
  "rnd (initParticles s) =
     snd (make (nat (max 20 (PARTICLE_COUNT s))) (W s) (H s) (palette s) (rnd s))"
  "callbacks (initParticles s) = callbacks s"
  "next_handle (initParticles s) = next_handle s"
  "rafId (initParticles s) = rafId s"
  "prefersReduced (initParticles s) = prefersReduced s"
  "loop_requests (initParticles s) = loop_requests s"
  "surface (initParticles s) = surface s"
  "api_particles (initParticles s) = api_particles s"
  "PARTICLE_COUNT (initParticles s) = PARTICLE_COUNT s"
  "palette (initParticles s) = palette s"
  "checked (initParticles s) = checked s"
  "W (initParticles s) = W s"
  "H (initParticles s) = H s"
  by (simp_all add: initParticles_def split: prod.splits)

lemma resize_fields:
  "store (resize w h s) =
     store s @ [fst (make (nat (max 20 (PARTICLE_COUNT s))) w h (palette s) (rnd s))]"
  "particles (resize w h s) = length (store s)"
  "rnd (resize w h s) = snd (make (nat (max 20 (PARTICLE_COUNT s))) w h (palette s) (rnd s))"
  "callbacks (resize w h s) = callbacks s"
  "next_handle (resize w h s) = next_handle s"
  "rafId (resize w h s) = rafId s"
  "prefersReduced (resize w h s) = prefersReduced s"
  "loop_requests (resize w h s) = loop_requests s"
  "surface (resize w h s) = []"
  "api_particles (resize w h s) = api_particles s"
  "PARTICLE_COUNT (resize w h s) = PARTICLE_COUNT s"
  "palette (resize w h s) = palette s"
  "checked (resize w h s) = checked s"
  "W (resize w h s) = w"
  "H (resize w h s) = h"
  by (simp_all add: resize_def initParticles_fields)

lemma render_fields:
  "store (render s) =
     (store s)[particles s := fst (fst (update_draw (W s) (H s) (palette s) (rnd s) (pool s)))]"
  "surface (render s) =
     Overlay (W s) (H s) # snd (fst (update_draw (W s) (H s) (palette s) (rnd s) (pool s)))"
  "rnd (render s) = snd (update_draw (W s) (H s) (palette s) (rnd s) (pool s))"
  "callbacks (render s) =
     callbacks s @ (if prefersReduced s then [] else [(next_handle s, CbRender)])"
  "next_handle (render s) = (if prefersReduced s then next_handle s else next_handle s + 1)"
  "rafId (render s) = (if prefersReduced s then rafId s else Some (next_handle s))"
  "loop_requests (render s) =
     (if prefersReduced s then loop_requests s else loop_requests s + 1)"
  "prefersReduced (render s) = prefersReduced s"
  "particles (render s) = particles s"
  "api_particles (render s) = api_particles s"
  "PARTICLE_COUNT (render s) = PARTICLE_COUNT s"
  "palette (render s) = palette s"
  "checked (render s) = checked s"
  "W (render s) = W s"
  "H (render s) = H s"
  by (simp_all add: render_def requestAnimationFrame_def Let_def split: prod.splits)

lemma frame_fields:
  "callbacks (frame b s) =
     callbacks s @ (if t (tick b) < duration then [(next_handle s, CbFrame (tick b))] else [])"
  "next_handle (frame b s) =
     (if t (tick b) < duration then next_handle s + 1 else next_handle s)"
  "surface (frame b s) = surface s @ [glow (tick b)]"
  "rafId (frame b s) = rafId s"
  "prefersReduced (frame b s) = prefersReduced s"
  "loop_requests (frame b s) = loop_requests s"
  "store (frame b s) = store s"
  "particles (frame b s) = particles s"
  "api_particles (frame b s) = api_particles s"
  "PARTICLE_COUNT (frame b s) = PARTICLE_COUNT s"
  "palette (frame b s) = palette s"
  "rnd (frame b s) = rnd s"
  "checked (frame b s) = checked s"
  "W (frame b s) = W s"
  "H (frame b s) = H s"
  by (simp_all add: frame_def requestAnimationFrame_def Let_def)

lemma burstLight_fields:
  "callbacks (burstLight el s) = callbacks s @ [(next_handle s, CbFrame (spawn el))]"
  "next_handle (burstLight el s) = next_handle s + 1"
  "surface (burstLight el s) = surface s"
  "rafId (burstLight el s) = rafId s"
  "prefersReduced (burstLight el s) = prefersReduced s"
  "loop_requests (burstLight el s) = loop_requests s"
  "store (burstLight el s) = store s"
  "particles (burstLight el s) = particles s"
  "api_particles (burstLight el s) = api_particles s"
  "PARTICLE_COUNT (burstLight el s) = PARTICLE_COUNT s"
  "palette (burstLight el s) = palette s"
  "rnd (burstLight el s) = rnd s"
  "checked (burstLight el s) = checked s"
  "W (burstLight el s) = W s"
  "H (burstLight el s) = H s"
  by (simp_all add: burstLight_def requestAnimationFrame_def)

lemma randomizeBtn_click_fields:
  "palette (randomizeBtn_click s) = fst (randomize (palette s) (rnd s))"
  "rnd (randomizeBtn_click s) = snd (randomize (palette s) (rnd s))"
  "callbacks (randomizeBtn_click s) = callbacks s"
  "next_handle (randomizeBtn_click s) = next_handle s"
  "surface (randomizeBtn_click s) = surface s"
  "rafId (randomizeBtn_click s) = rafId s"
  "prefersReduced (randomizeBtn_click s) = prefersReduced s"
  "loop_requests (randomizeBtn_click s) = loop_requests s"
  "store (randomizeBtn_click s) = store s"
  "particles (randomizeBtn_click s) = particles s"
  "api_particles (randomizeBtn_click s) = api_particles s"
  "PARTICLE_COUNT (randomizeBtn_click s) = PARTICLE_COUNT s"
  "checked (randomizeBtn_click s) = checked s"
  "W (randomizeBtn_click s) = W s"
  "H (randomizeBtn_click s) = H s"
  by (simp_all add: randomizeBtn_click_def split: prod.splits)

subsection \<open>The render loop's invariant\<close>

lemma loop_handles_simps:
  "loop_handles [] = []"
  "loop_handles (cbs @ cbs') = loop_handles cbs @ loop_handles cbs'"
  "loop_handles ((k, CbRender) # cbs) = k # loop_handles cbs"
  "loop_handles ((k, CbFrame b) # cbs) = loop_handles cbs"
  by (simp_all add: loop_handles_def)

lemma loop_handles_filter:
  "loop_handles (filter (\<lambda>e. fst e \<noteq> k) cbs) = filter (\<lambda>i. i \<noteq> k) (loop_handles cbs)"
  by (induction cbs) (auto simp: loop_handles_def)

lemma loop_inv_render: "loop_inv s \<Longrightarrow> rafId s = None \<Longrightarrow> loop_inv (render s)"
  by (simp add: loop_inv_def render_fields loop_handles_simps handle_list_def)

lemma loop_inv_frame: "loop_inv s \<Longrightarrow> loop_inv (frame b s)"
  by (simp add: loop_inv_def frame_fields loop_handles_simps)

lemma loop_inv_burstLight: "loop_inv s \<Longrightarrow> loop_inv (burstLight el s)"
  by (simp add: loop_inv_def burstLight_fields loop_handles_simps)

lemma loop_inv_initParticles: "loop_inv s \<Longrightarrow> loop_inv (initParticles s)"
  by (simp add: loop_inv_def initParticles_fields)

lemma loop_inv_resize: "loop_inv s \<Longrightarrow> loop_inv (resize w h s)"
  by (simp add: loop_inv_def resize_fields)

lemma loop_inv_randomize: "loop_inv s \<Longrightarrow> loop_inv (randomizeBtn_click s)"
  by (simp add: loop_inv_def randomizeBtn_click_fields)

lemma loop_handles_cancel:
  "loop_handles cbs = handle_list v \<Longrightarrow> v \<noteq> Some 0 \<Longrightarrow>
     loop_handles (filter (\<lambda>e. fst e \<noteq> to_handle v) cbs) = []"
  unfolding loop_handles_filter by (cases v) (simp_all add: handle_list_def to_handle_def)

lemma loop_inv_stop:
  "loop_inv s \<Longrightarrow> loop_inv ((cancelAnimationFrame (rafId s) s)\<lparr>rafId := None\<rparr>)"
  by (simp add: loop_inv_def cancelAnimationFrame_fields loop_handles_cancel handle_list_def)

lemma loop_inv_irrelevant:
  "loop_inv (s\<lparr>surface := v\<rparr>) = loop_inv s"
  "loop_inv (s\<lparr>checked := c\<rparr>) = loop_inv s"
  "loop_inv (s\<lparr>api_particles := a\<rparr>) = loop_inv s"
  by (simp_all add: loop_inv_def)

lemma loop_inv_falsy: "loop_inv s \<Longrightarrow> falsy (rafId s) = (rafId s = None)"
  by (auto simp: loop_inv_def falsy_def)

lemma loop_inv_motionToggle: "loop_inv s \<Longrightarrow> loop_inv (motionToggle_change c s)"
proof (cases c)
  case True
  assume "loop_inv s"
  then have b: "loop_inv (s\<lparr>checked := True\<rparr>)" by (simp add: loop_inv_irrelevant)
  show ?thesis
    using True loop_inv_render[OF b] b loop_inv_falsy[OF b]
    by (simp add: motionToggle_change_def Let_def)
next
  case False
  assume "loop_inv s"
  then have b: "loop_inv (s\<lparr>checked := False\<rparr>)" by (simp add: loop_inv_irrelevant)
  show ?thesis
    using False loop_inv_stop[OF b]
    by (simp add: motionToggle_change_def Let_def loop_inv_irrelevant)
qed

lemma loop_inv_visibilitychange: "loop_inv s \<Longrightarrow> loop_inv (visibilitychange hidden s)"
  using loop_inv_stop[of s] loop_inv_render[of s] loop_inv_falsy[of s]
  by (simp add: visibilitychange_def)

lemma run_callbacks_loop:
  "loop_handles (cbs @ callbacks s) = handle_list (rafId s) \<Longrightarrow> rafId s \<noteq> Some 0 \<Longrightarrow>
   0 < next_handle s \<Longrightarrow> (prefersReduced s \<longrightarrow> rafId s = None \<and> loop_requests s = 0) \<Longrightarrow>
   loop_inv (run_callbacks cbs s)"
proof (induction cbs arbitrary: s)
  case Nil
  then show ?case by (simp add: loop_inv_def)
next
  case (Cons e cbs)
  obtain k cb where e: "e = (k, cb)" by (cases e)
  show ?case
  proof (cases cb)
    case CbRender
    with Cons.prems(1) e have k: "rafId s = Some k" and rest: "loop_handles (cbs @ callbacks s) = []"
      by (auto simp: loop_handles_simps handle_list_def split: option.splits)
    with Cons.prems(4) have nr: "\<not> prefersReduced s" by auto
    have "loop_inv (run_callbacks cbs (render s))"
      using rest nr Cons.prems(3)
      by (intro Cons.IH) (simp_all add: render_fields loop_handles_simps handle_list_def)
    then show ?thesis using e CbRender by simp
  next
    case (CbFrame b)
    have "loop_inv (run_callbacks cbs (frame b s))"
      using Cons.prems e CbFrame
      by (intro Cons.IH) (simp_all add: frame_fields loop_handles_simps)
    then show ?thesis using e CbFrame by simp
  qed
qed

lemma loop_inv_animation_frame: "loop_inv s \<Longrightarrow> loop_inv (animation_frame s)"
  unfolding animation_frame_def
  by (rule run_callbacks_loop) (simp_all add: loop_inv_def)

lemma loop_inv_step: "loop_inv s \<Longrightarrow> loop_inv (step e s)"
  by (cases e)
     (simp_all add: loop_inv_resize loop_inv_motionToggle loop_inv_randomize keyPulse_def
        loop_inv_burstLight loop_inv_visibilitychange loop_inv_animation_frame
        loop_inv_initParticles)

lemma loop_inv_run: "loop_inv s \<Longrightarrow> loop_inv (run es s)"
  by (induction es arbitrary: s) (simp_all add: loop_inv_step)

lemma loop_inv_load: "loop_inv (load w h reduced chk g)"
  by (simp add: load_def start_def Let_def loop_inv_def render_fields resize_fields
      loop_handles_simps handle_list_def)

subsection \<open>What never changes after the script has run\<close>

lemma motionToggle_change_const:
  "prefersReduced (motionToggle_change c s) = prefersReduced s"
  "PARTICLE_COUNT (motionToggle_change c s) = PARTICLE_COUNT s"
  "api_particles (motionToggle_change c s) = api_particles s"
  "particles (motionToggle_change c s) = particles s"
  "length (store (motionToggle_change c s)) = length (store s)"
  by (simp_all add: motionToggle_change_def Let_def render_fields cancelAnimationFrame_fields)

lemma visibilitychange_const:
  "prefersReduced (visibilitychange hidden s) = prefersReduced s"
  "PARTICLE_COUNT (visibilitychange hidden s) = PARTICLE_COUNT s"
  "api_particles (visibilitychange hidden s) = api_particles s"
  "particles (visibilitychange hidden s) = particles s"
  "length (store (visibilitychange hidden s)) = length (store s)"
  by (simp_all add: visibilitychange_def render_fields cancelAnimationFrame_fields)

lemma run_callback_const:
  "prefersReduced (run_callback cb s) = prefersReduced s"
  "PARTICLE_COUNT (run_callback cb s) = PARTICLE_COUNT s"
  "api_particles (run_callback cb s) = api_particles s"
  "particles (run_callback cb s) = particles s"
  "length (store (run_callback cb s)) = length (store s)"
  by (cases cb; simp add: render_fields frame_fields)+

lemma run_callbacks_const:
  "prefersReduced (run_callbacks cbs s) = prefersReduced s"
  "PARTICLE_COUNT (run_callbacks cbs s) = PARTICLE_COUNT s"
  "api_particles (run_callbacks cbs s) = api_particles s"
  "particles (run_callbacks cbs s) = particles s"
  "length (store (run_callbacks cbs s)) = length (store s)"
  by (induction cbs arbitrary: s; simp add: run_callback_const)+

lemma step_const:
  "prefersReduced (step e s) = prefersReduced s"
  "PARTICLE_COUNT (step e s) = PARTICLE_COUNT s"
  "api_particles (step e s) = api_particles s"
  by (cases e; simp add: resize_fields motionToggle_change_const randomizeBtn_click_fields
        keyPulse_def burstLight_fields visibilitychange_const animation_frame_def
        run_callbacks_const initParticles_fields)+

lemma run_const:
  "prefersReduced (run es s) = prefersReduced s"
  "PARTICLE_COUNT (run es s) = PARTICLE_COUNT s"
  "api_particles (run es s) = api_particles s"
  by (induction es arbitrary: s; simp add: step_const)+

lemma load_const:
  "prefersReduced (load w h reduced chk g) = reduced"
  "PARTICLE_COUNT (load w h reduced chk g) = js_round (real (w * h) / 70000)"
  by (simp_all add: load_def start_def Let_def render_fields resize_fields)

lemma run_append: "run (es @ es') s = run es' (run es s)"
  by (induction es arbitrary: s) simp_all

lemma loop_inv_reachable: "loop_inv (run es (load w h reduced chk g))"
  by (rule loop_inv_run) (rule loop_inv_load)

lemma reduced_reachable:
  "rafId (run es (load w h True chk g)) = None"
  "loop_requests (run es (load w h True chk g)) = 0"
  "loop_handles (callbacks (run es (load w h True chk g))) = []"
  using loop_inv_reachable[of es w h True chk g]
  by (simp_all add: loop_inv_def run_const load_const handle_list_def)

lemma toggle_on_running:
  "loop_inv s \<Longrightarrow> \<not> prefersReduced s \<Longrightarrow> rafId (motionToggle_change True s) \<noteq> None"
  by (simp add: motionToggle_change_def Let_def render_fields falsy_def)

lemma loop_inv_count:
  "loop_inv s \<Longrightarrow> length (loop_handles (callbacks s)) = (if rafId s = None then 0 else 1)"
  by (auto simp: loop_inv_def handle_list_def)

lemma started_count:
  "length (loop_handles (callbacks (run (es @ [MotionToggle True]) (load w h False chk g)))) = 1"
proof -
  let ?s = "run es (load w h False chk g)"
  have i: "loop_inv ?s" by (rule loop_inv_reachable)
  have nr: "\<not> prefersReduced ?s" by (simp add: run_const load_const)
  from i nr have on: "rafId (motionToggle_change True ?s) \<noteq> None" by (rule toggle_on_running)
  from i have "loop_inv (motionToggle_change True ?s)" by (rule loop_inv_motionToggle)
  from loop_inv_count[OF this] on show ?thesis by (simp add: run_append)
qed

lemma stop_toggle:
  "loop_inv s \<Longrightarrow> rafId (motionToggle_change False s) = None \<and>
     surface (motionToggle_change False s) = [] \<and>
     loop_handles (callbacks (motionToggle_change False s)) = []"
  by (simp add: motionToggle_change_def Let_def cancelAnimationFrame_fields
      loop_handles_cancel loop_inv_def)

lemma stop_hidden:
  "loop_inv s \<Longrightarrow> rafId (visibilitychange True s) = None \<and>
     surface (visibilitychange True s) = surface s \<and>
     loop_handles (callbacks (visibilitychange True s)) = []"
  by (simp add: visibilitychange_def cancelAnimationFrame_fields loop_handles_cancel
      loop_inv_def)

lemma surface_load_running: "surface (load w h False chk g) \<noteq> []"
  by (simp add: load_def start_def Let_def render_fields resize_fields)

subsection \<open>The size of the pool\<close>

lemma make_Suc:
  "make (Suc n) w h pal g =
     (fst (new_particle w h pal g) # fst (make n w h pal (snd (new_particle w h pal g))),
      snd (make n w h pal (snd (new_particle w h pal g))))"
  by (simp split: prod.splits)

lemma update_draw_Cons:
  "update_draw w h pal g (p # ps) =
     ((fst (update w h pal g p) # fst (fst (update_draw w h pal (snd (update w h pal g p)) ps)),
       draw (fst (update w h pal g p))
         # snd (fst (update_draw w h pal (snd (update w h pal g p)) ps))),
      snd (update_draw w h pal (snd (update w h pal g p)) ps))"
  by (simp split: prod.splits)

lemma make_length: "length (fst (make n w h pal g)) = n"
  by (induction n arbitrary: g) (simp_all add: make_Suc del: make.simps(2))

lemma update_draw_length: "length (fst (fst (update_draw w h pal g ps))) = length ps"
  by (induction ps arbitrary: g) (simp_all add: update_draw_Cons del: update_draw.simps(2))

lemma pool_initParticles:
  "pool (initParticles s) =
     fst (make (nat (max 20 (PARTICLE_COUNT s))) (W s) (H s) (palette s) (rnd s))"
  by (simp add: pool_def deref_def initParticles_fields)

lemma pool_inv_initParticles: "pool_inv (initParticles s)"
  by (simp add: pool_inv_def pool_initParticles make_length initParticles_fields)

lemma pool_inv_resize: "pool_inv (resize w h s)"
  by (simp add: resize_def pool_inv_initParticles)

lemma pool_render:
  "particles s < length (store s) \<Longrightarrow>
     pool (render s) = fst (fst (update_draw (W s) (H s) (palette s) (rnd s) (pool s)))"
  by (simp add: pool_def deref_def render_fields)

lemma pool_inv_render: "pool_inv s \<Longrightarrow> pool_inv (render s)"
  by (simp add: pool_inv_def pool_render update_draw_length render_fields)

lemma pool_inv_same:
  "store s' = store s \<Longrightarrow> particles s' = particles s \<Longrightarrow>
   PARTICLE_COUNT s' = PARTICLE_COUNT s \<Longrightarrow> pool_inv s' = pool_inv s"
  by (simp add: pool_inv_def pool_def)

lemma pool_inv_frame: "pool_inv s \<Longrightarrow> pool_inv (frame b s)"
  by (simp add: pool_inv_same[of "frame b s" s] frame_fields)

lemma pool_inv_burstLight: "pool_inv s \<Longrightarrow> pool_inv (burstLight el s)"
  by (simp add: pool_inv_same[of "burstLight el s" s] burstLight_fields)

lemma pool_inv_randomize: "pool_inv s \<Longrightarrow> pool_inv (randomizeBtn_click s)"
  by (simp add: pool_inv_same[of "randomizeBtn_click s" s] randomizeBtn_click_fields)

lemma pool_inv_stop:
  "pool_inv s \<Longrightarrow> pool_inv ((cancelAnimationFrame v s)\<lparr>rafId := None, surface := vs\<rparr>)"
  "pool_inv s \<Longrightarrow> pool_inv ((cancelAnimationFrame v s)\<lparr>rafId := None\<rparr>)"
  by (simp_all add: pool_inv_def pool_def cancelAnimationFrame_fields)

lemma pool_inv_motionToggle: "pool_inv s \<Longrightarrow> pool_inv (motionToggle_change c s)"
proof (cases c)
  case True
  assume "pool_inv s"
  then have b: "pool_inv (s\<lparr>checked := True\<rparr>)"
    by (simp add: pool_inv_same[of "s\<lparr>checked := True\<rparr>" s])
  with True pool_inv_render[OF b] show ?thesis
    by (simp add: motionToggle_change_def Let_def)
next
  case False
  assume "pool_inv s"
  then have b: "pool_inv (s\<lparr>checked := False\<rparr>)"
    by (simp add: pool_inv_same[of "s\<lparr>checked := False\<rparr>" s])
  with False pool_inv_stop(1)[OF b] show ?thesis
    by (simp add: motionToggle_change_def Let_def)
qed

lemma pool_inv_visibilitychange: "pool_inv s \<Longrightarrow> pool_inv (visibilitychange hidden s)"
  using pool_inv_stop(2)[of s] pool_inv_render[of s] by (simp add: visibilitychange_def)

lemma pool_inv_run_callbacks: "pool_inv s \<Longrightarrow> pool_inv (run_callbacks cbs s)"
proof (induction cbs arbitrary: s)
  case Nil
  then show ?case by simp
next
  case (Cons e cbs)
  have "pool_inv (run_callback (snd e) s)"
    using Cons.prems by (cases "snd e") (simp_all add: pool_inv_render pool_inv_frame)
  then show ?case by (simp add: Cons.IH)
qed

lemma pool_inv_animation_frame: "pool_inv s \<Longrightarrow> pool_inv (animation_frame s)"
  unfolding animation_frame_def
  by (rule pool_inv_run_callbacks) (simp add: pool_inv_same[of "s\<lparr>callbacks := []\<rparr>" s])

lemma pool_inv_step: "pool_inv s \<Longrightarrow> pool_inv (step e s)"
  by (cases e)
     (simp_all add: pool_inv_resize pool_inv_motionToggle pool_inv_randomize keyPulse_def
        pool_inv_burstLight pool_inv_visibilitychange pool_inv_animation_frame
        pool_inv_initParticles)

lemma pool_inv_run: "pool_inv s \<Longrightarrow> pool_inv (run es s)"
  by (induction es arbitrary: s) (simp_all add: pool_inv_step)

lemma pool_inv_start: "pool_inv (start w h s)"
  by (simp add: start_def Let_def pool_inv_resize pool_inv_render)

lemma pool_inv_load: "pool_inv (load w h reduced chk g)"
proof -
  have "pool_inv (s\<lparr>api_particles := a\<rparr>) = pool_inv s" for s a
    by (simp add: pool_inv_same[of "s\<lparr>api_particles := a\<rparr>" s])
  then show ?thesis by (simp add: load_def Let_def pool_inv_start)
qed

lemma pool_size_reachable:
  "length (pool (run es (load w h reduced chk g))) = nat (max 20 (js_round (real (w * h) / 70000)))"
  using pool_inv_run[OF pool_inv_load, of es w h reduced chk g]
  by (simp add: pool_inv_def run_const load_const)

subsection \<open>The exposed array\<close>

lemma load_addresses:
  "api_particles (load w h reduced chk g) = Some 1"
  "particles (load w h reduced chk g) = 1"
  "length (store (load w h reduced chk g)) = 2"
  by (simp_all add: load_def start_def Let_def render_fields resize_fields)

lemma step_store_length: "length (store s) \<le> length (store (step e s))"
  by (cases e)
     (simp_all add: resize_fields motionToggle_change_const randomizeBtn_click_fields
        keyPulse_def burstLight_fields visibilitychange_const animation_frame_def
        run_callbacks_const initParticles_fields)

lemma run_store_length: "length (store s) \<le> length (store (run es s))"
proof (induction es arbitrary: s)
  case Nil
  show ?case by simp
next
  case (Cons e es)
  have "length (store s) \<le> length (store (step e s))" by (rule step_store_length)
  also have "\<dots> \<le> length (store (run es (step e s)))" by (rule Cons.IH)
  finally show ?case by simp
qed

lemma stale_after_init:
  "api_particles (initParticles (run es (load w h reduced chk g)))
     \<noteq> Some (particles (initParticles (run es (load w h reduced chk g))))"
  using run_store_length[of "load w h reduced chk g" es]
  by (simp add: initParticles_fields run_const load_addresses)

subsection \<open>Ages stay within the time to live\<close>

lemma reset_ok: "rng_ok g \<Longrightarrow> particle_ok (fst (reset w h pal g p))"
proof -
  assume "rng_ok g"
  then have "0 \<le> g 5" by (simp add: rng_ok_def)
  then have "0 \<le> 80 + g 5 * 220" by simp
  then show ?thesis by (simp add: particle_ok_def reset_fields)
qed

lemma update_ok: "rng_ok g \<Longrightarrow> 0 \<le> life p \<Longrightarrow> particle_ok (fst (update w h pal g p))"
  by (cases "expired h (advance p)")
     (simp_all add: update_expired update_alive reset_ok,
      simp add: particle_ok_def expired_def advance_fields)

lemma update_rng_ok: "rng_ok g \<Longrightarrow> rng_ok (snd (update w h pal g p))"
  by (cases "expired h (advance p)")
     (simp_all add: update_expired update_alive reset_fields rng_drop_ok)

lemma new_particle_ok:
  "rng_ok g \<Longrightarrow> particle_ok (fst (new_particle w h pal g))"
  "rng_ok g \<Longrightarrow> rng_ok (snd (new_particle w h pal g))"
  by (simp_all add: new_particle_def reset_ok reset_fields rng_drop_ok)

lemma make_ok:
  "rng_ok g \<Longrightarrow> list_all particle_ok (fst (make n w h pal g)) \<and> rng_ok (snd (make n w h pal g))"
  by (induction n arbitrary: g) (simp_all add: make_Suc new_particle_ok del: make.simps(2))

lemma update_keeps_ok: "rng_ok g \<Longrightarrow> particle_ok p \<Longrightarrow> particle_ok (fst (update w h pal g p))"
  by (rule update_ok) (simp_all add: particle_ok_def)

lemma update_draw_ok:
  "rng_ok g \<Longrightarrow> list_all particle_ok ps \<Longrightarrow>
     list_all particle_ok (fst (fst (update_draw w h pal g ps))) \<and>
     rng_ok (snd (update_draw w h pal g ps))"
  by (induction ps arbitrary: g)
     (simp_all add: update_draw_Cons update_keeps_ok update_rng_ok del: update_draw.simps(2))

lemma randomize_Cons:
  "randomize (c # cs) g =
     (Rgba (120 + \<lfloor>g 1 * 120\<rfloor>) (180 + \<lfloor>g 2 * 70\<rfloor>) 255 (0.6 + g 3 * 0.35)
        # fst (randomize cs (rng_drop 4 g)),
      snd (randomize cs (rng_drop 4 g)))"
  by (simp split: prod.splits)

lemma randomize_rng_ok: "rng_ok g \<Longrightarrow> rng_ok (snd (randomize pal g))"
  by (induction pal arbitrary: g) (simp_all add: randomize_Cons rng_drop_ok del: randomize.simps(2))

lemma deref_ok: "list_all (list_all particle_ok) st \<Longrightarrow> list_all particle_ok (deref st a)"
  by (simp add: deref_def list_all_length)

lemma list_update_ok: "list_all P xs \<Longrightarrow> P v \<Longrightarrow> list_all P (xs[i := v])"
  by (auto simp: list_all_iff dest: set_update_subset_insert[THEN subsetD])

lemma store_ok_initParticles: "store_ok s \<Longrightarrow> store_ok (initParticles s)"
  by (simp add: store_ok_def initParticles_fields make_ok)

lemma store_ok_same:
  "store s' = store s \<Longrightarrow> rnd s' = rnd s \<Longrightarrow> store_ok s' = store_ok s"
  by (simp add: store_ok_def)

lemma store_ok_resize: "store_ok s \<Longrightarrow> store_ok (resize w h s)"
  by (simp add: store_ok_def resize_fields make_ok)

lemma store_ok_render: "store_ok s \<Longrightarrow> store_ok (render s)"
  by (simp add: store_ok_def render_fields update_draw_ok list_update_ok deref_ok pool_def)

lemma store_ok_frame: "store_ok s \<Longrightarrow> store_ok (frame b s)"
  by (simp add: store_ok_same[of "frame b s" s] frame_fields)

lemma store_ok_burstLight: "store_ok s \<Longrightarrow> store_ok (burstLight el s)"
  by (simp add: store_ok_same[of "burstLight el s" s] burstLight_fields)

lemma store_ok_randomize: "store_ok s \<Longrightarrow> store_ok (randomizeBtn_click s)"
  by (simp add: store_ok_def randomizeBtn_click_fields randomize_rng_ok)

lemma store_ok_motionToggle: "store_ok s \<Longrightarrow> store_ok (motionToggle_change c s)"
proof (cases c)
  case True
  assume "store_ok s"
  then have b: "store_ok (s\<lparr>checked := True\<rparr>)" by (simp add: store_ok_def)
  with True store_ok_render[OF b] show ?thesis
    by (simp add: motionToggle_change_def Let_def)
next
  case False
  assume "store_ok s"
  with False show ?thesis
    by (simp add: motionToggle_change_def Let_def store_ok_def cancelAnimationFrame_fields)
qed

lemma store_ok_visibilitychange: "store_ok s \<Longrightarrow> store_ok (visibilitychange hidden s)"
  using store_ok_render[of s]
  by (simp add: visibilitychange_def store_ok_def cancelAnimationFrame_fields)

lemma store_ok_run_callbacks: "store_ok s \<Longrightarrow> store_ok (run_callbacks cbs s)"
proof (induction cbs arbitrary: s)
  case Nil
  then show ?case by simp
next
  case (Cons e cbs)
  have "store_ok (run_callback (snd e) s)"
    using Cons.prems by (cases "snd e") (simp_all add: store_ok_render store_ok_frame)
  then show ?case by (simp add: Cons.IH)
qed

lemma store_ok_animation_frame: "store_ok s \<Longrightarrow> store_ok (animation_frame s)"
  unfolding animation_frame_def
  by (rule store_ok_run_callbacks) (simp add: store_ok_def)

lemma store_ok_step: "store_ok s \<Longrightarrow> store_ok (step e s)"
  by (cases e)
     (simp_all add: store_ok_resize store_ok_motionToggle store_ok_randomize keyPulse_def
        store_ok_burstLight store_ok_visibilitychange store_ok_animation_frame
        store_ok_initParticles)

lemma store_ok_run: "store_ok s \<Longrightarrow> store_ok (run es s)"
  by (induction es arbitrary: s) (simp_all add: store_ok_step)

lemma store_ok_load: "rng_ok g \<Longrightarrow> store_ok (load w h reduced chk g)"
proof -
  assume g: "rng_ok g"
  have a: "store_ok (s\<lparr>api_particles := a\<rparr>) = store_ok s" for s a
    by (simp add: store_ok_def)
  have "store_ok (start w h s)" if "store_ok s" for s
    using that by (simp add: start_def Let_def store_ok_resize store_ok_render)
  moreover have "store_ok \<lparr>W = w, H = h, PARTICLE_COUNT = js_round (real (w * h) / 70000),
                prefersReduced = reduced, palette = palette0,
                store = [[]], particles = 0, api_particles = None, rafId = None,
                callbacks = [], next_handle = 1, surface = [], rnd = g, checked = chk,
                loop_requests = 0\<rparr>"
    using g by (simp add: store_ok_def)
  ultimately show ?thesis by (simp add: load_def Let_def a)
qed

lemma pool_ok_reachable:
  "rng_ok g \<Longrightarrow> list_all particle_ok (pool (run es (load w h reduced chk g)))"
  using store_ok_run[OF store_ok_load, of g es w h reduced chk]
  by (simp add: store_ok_def pool_def deref_ok)

lemma make_hd: "0 < n \<Longrightarrow> fst (new_particle w h pal g) \<in> set (fst (make n w h pal g))"
  by (cases n) (simp_all add: make_Suc del: make.simps(2))

lemma pool_load_reduced:
  "pool (load w h True chk g)
     = fst (make (nat (max 20 (js_round (real (w * h) / 70000)))) w h palette0 g)"
  by (simp add: load_def start_def Let_def pool_def deref_def resize_fields)

lemma const_rng_ok: "0 \<le> c \<Longrightarrow> c < 1 \<Longrightarrow> rng_ok (const_rng c)"
  by (simp add: rng_ok_def const_rng_def)

subsection \<open>The palette\<close>

lemma randomize_length: "length (fst (randomize pal g)) = length pal"
  by (induction pal arbitrary: g) (simp_all add: randomize_Cons del: randomize.simps(2))

lemma new_entry_0:
  "new_entry g 0 = Rgba (120 + \<lfloor>g 1 * 120\<rfloor>) (180 + \<lfloor>g 2 * 70\<rfloor>) 255 (0.6 + g 3 * 0.35)"
  by (simp add: new_entry_def numeral_2_eq_2)

lemma randomize_nth:
  "i < length pal \<Longrightarrow> fst (randomize pal g) ! i = new_entry g i"
proof (induction pal arbitrary: g i)
  case Nil
  then show ?case by simp
next
  case (Cons c cs)
  show ?case
  proof (cases i)
    case 0
    then show ?thesis by (simp add: randomize_Cons new_entry_0 del: randomize.simps(2))
  next
    case (Suc j)
    with Cons.prems have "j < length cs" by simp
    then have "fst (randomize cs (rng_drop 4 g)) ! j = new_entry (rng_drop 4 g) j"
      by (rule Cons.IH)
    moreover have "new_entry (rng_drop 4 g) j = new_entry g (Suc j)"
      by (simp add: new_entry_def rng_drop_def add.commute add.left_commute)
    ultimately show ?thesis
      using Suc by (simp add: randomize_Cons del: randomize.simps(2))
  qed
qed

lemma randomize_map: "fst (randomize pal g) = map (new_entry g) [0 ..< length pal]"
  by (rule nth_equalityI) (simp_all add: randomize_length randomize_nth)

lemma run_callbacks_palette: "palette (run_callbacks cbs s) = palette s"
proof (induction cbs arbitrary: s)
  case Nil
  show ?case by simp
next
  case (Cons e cbs)
  have "palette (run_callback (snd e) s) = palette s"
    by (cases "snd e") (simp_all add: render_fields frame_fields)
  then show ?case by (simp add: Cons.IH)
qed

lemma palette_step_length: "length (palette (step e s)) = length (palette s)"
  by (cases e)
     (simp_all add: resize_fields motionToggle_change_def Let_def render_fields
        cancelAnimationFrame_fields randomizeBtn_click_fields randomize_length keyPulse_def
        burstLight_fields visibilitychange_def initParticles_fields animation_frame_def
        run_callbacks_palette)

lemma palette_run_length: "length (palette (run es s)) = length (palette s)"
  by (induction es arbitrary: s) (simp_all add: palette_step_length)

lemma palette_reachable_length: "length (palette (run es (load w h reduced chk g))) = 4"
proof -
  have "palette (load w h reduced chk g) = palette0"
    by (simp add: load_def start_def Let_def render_fields resize_fields)
  then show ?thesis by (simp add: palette_run_length palette0_def)
qed

lemma reset_color:
  assumes "rng_ok g" and "pal \<noteq> []"
  shows "nat \<lfloor>g 6 * real (length pal)\<rfloor> < length pal"
    and "color (fst (reset w h pal g p)) = Some (pal ! nat \<lfloor>g 6 * real (length pal)\<rfloor>)"
proof -
  from assms(1) have g: "0 \<le> g 6" "g 6 < 1" by (simp_all add: rng_ok_def)
  from assms(2) have len: "0 < real (length pal)" by simp
  from g(1) have nn: "0 \<le> g 6 * real (length pal)" by simp
  from g(2) len have lt: "g 6 * real (length pal) < real (length pal)" by simp
  from nn have f0: "0 \<le> \<lfloor>g 6 * real (length pal)\<rfloor>" by simp
  from lt have "\<lfloor>g 6 * real (length pal)\<rfloor> < int (length pal)" by (simp add: floor_less_iff)
  with f0 show a: "nat \<lfloor>g 6 * real (length pal)\<rfloor> < length pal" by linarith
  with f0 show "color (fst (reset w h pal g p)) = Some (pal ! nat \<lfloor>g 6 * real (length pal)\<rfloor>)"
    by (simp add: reset_fields palette_at_def)
qed

lemma update_n_color:
  "survives n h p \<Longrightarrow> color (fst (update_n n w h pal g p)) = color p"
  by (simp add: update_n_survives advance_pow_fields)

subsection \<open>A burst on its own\<close>

lemma animation_frame_idle:
  "callbacks s = [] \<Longrightarrow> animation_frame s = s"
  by (simp add: animation_frame_def)

lemma frames_idle:
  "callbacks s = [] \<Longrightarrow> run (replicate j AnimationFrame) s = s"
  by (induction j) (simp_all add: animation_frame_idle)

lemma animation_frame_single:
  "callbacks s = [(k, CbFrame b)] \<Longrightarrow> animation_frame s = frame b (s\<lparr>callbacks := []\<rparr>)"
  by (simp add: animation_frame_def)

lemma burst_frames:
  "map snd (callbacks s) = [CbFrame b] \<Longrightarrow> t b = 16 * int k \<Longrightarrow> k \<le> 26 \<Longrightarrow>
     map snd (callbacks (run (replicate j AnimationFrame) s))
       = (if j < 27 - k then [CbFrame ((tick ^^ j) b)] else []) \<and>
     surface (run (replicate j AnimationFrame) s) = surface s @ map glow (take j (chain b))"
proof (induction j arbitrary: s b k)
  case 0
  then show ?case by simp
next
  case (Suc j)
  from Suc.prems(1) obtain k0 where cb: "callbacks s = [(k0, CbFrame b)]"
    by (cases "callbacks s") auto
  let ?s1 = "frame b (s\<lparr>callbacks := []\<rparr>)"
  have af: "animation_frame s = ?s1" using cb by (rule animation_frame_single)
  have sf: "surface ?s1 = surface s @ [glow (tick b)]" by (simp add: frame_fields)
  show ?case
  proof (cases "k < 26")
    case True
    with Suc.prems(2) have lt: "t (tick b) < duration" by (simp add: tick_t duration_def)
    then have ch: "chain b = tick b # chain (tick b)" by (rule chain_more)
    from lt have c1: "map snd (callbacks ?s1) = [CbFrame (tick b)]" by (simp add: frame_fields)
    have t1: "t (tick b) = 16 * int (Suc k)" using Suc.prems(2) by (simp add: tick_t)
    from True have k1: "Suc k \<le> 26" by simp
    from True have ar: "(j < 27 - Suc k) = (Suc j < 27 - k)" by arith
    from Suc.IH[OF c1 t1 k1] show ?thesis
      unfolding ar by (simp add: af sf ch funpow_swap1)
  next
    case False
    with Suc.prems(3) have k: "k = 26" by simp
    with Suc.prems(2) have ge: "\<not> t (tick b) < duration" by (simp add: tick_t duration_def)
    then have ch: "chain b = [tick b]" by (rule chain_last)
    from ge have "callbacks ?s1 = []" by (simp add: frame_fields)
    then have "run (replicate j AnimationFrame) ?s1 = ?s1" by (rule frames_idle)
    then show ?thesis using ge k by (simp add: af sf ch frame_fields)
  qed
qed

lemma burst_alone:
  "map snd (callbacks (run (replicate j AnimationFrame) (burstLight el (s\<lparr>callbacks := []\<rparr>))))
     = (if j < 27 then [CbFrame ((tick ^^ j) (spawn el))] else [])"
  "surface (run (replicate j AnimationFrame) (burstLight el (s\<lparr>callbacks := []\<rparr>)))
     = surface s @ map glow (take j (chain (spawn el)))"
proof -
  let ?s = "burstLight el (s\<lparr>callbacks := []\<rparr>)"
  have a: "map snd (callbacks ?s) = [CbFrame (spawn el)]" by (simp add: burstLight_fields)
  have b: "t (spawn el) = 16 * int 0" by (simp add: spawn_def)
  from burst_frames[OF a b, of j]
  show "map snd (callbacks (run (replicate j AnimationFrame) ?s))
     = (if j < 27 then [CbFrame ((tick ^^ j) (spawn el))] else [])"
    and "surface (run (replicate j AnimationFrame) ?s)
     = surface s @ map glow (take j (chain (spawn el)))"
    by (simp_all add: burstLight_fields)
qed

lemma chain_spawn_last_progress: "progress (last (chain (spawn el))) = 36 / 35"
  by (simp add: progress_def chain_spawn_last duration_def)

lemma survives_fresh0: "survives 80 1000 fresh0"
proof -
  have "y_within 80 1000 fresh0" by (rule y_withinI) (simp_all add: fresh0_fields)
  then show ?thesis by (rule survivesI) (simp add: fresh0_fields)
qed

lemma expired_falling0: "expired 1000 (advance falling0)"
  by (simp add: expired_def advance_fields falling0_def)

section \<open>The claims of the specification\<close>

text \<open>
  The runs quantified over below start from the state the script leaves after it has run
  once, \<open>load w h reduced chk g\<close>, and continue with any list of events.
\<close>

text \<open>
  What the code does in every run: \<^verbatim>\<open>PARTICLE_COUNT\<close> is computed once, from the
  window's size \<open>w0\<close> by \<open>h0\<close> when the script runs, so in every reachable state, after
  every resize to any \<open>w\<close> by \<open>h\<close> and after every call of \<^verbatim>\<open>initParticles\<close>, the
  pool has \<open>max(20, round(w0 * h0 / 70000))\<close> particles.
\<close>

theorem pool_size_fixed_at_load:
  "length (pool (run es (load w0 h0 reduced chk g)))
     = nat (max 20 (js_round (real (w0 * h0) / 70000))) \<and>
   length (pool (step (Resize w h) (run es (load w0 h0 reduced chk g))))
     = nat (max 20 (js_round (real (w0 * h0) / 70000))) \<and>
   length (pool (step CallInitParticles (run es (load w0 h0 reduced chk g))))
     = nat (max 20 (js_round (real (w0 * h0) / 70000)))"
  using pool_size_reachable[of es w0 h0 reduced chk g]
    pool_size_reachable[of "es @ [Resize w h]" w0 h0 reduced chk g]
    pool_size_reachable[of "es @ [CallInitParticles]" w0 h0 reduced chk g]
  by (simp add: run_append)

text \<open>
  Claim C1 fails on the code. The claim asks for a pool of
  \<open>max(20, round(w * h / 70000))\<close> particles after a resize to \<open>w\<close> by \<open>h\<close>, the size
  being recomputed from the current dimensions; the comment on \<^verbatim>\<open>PARTICLE_COUNT\<close> says
  it scales with the screen size, and \<^verbatim>\<open>resize\<close> assigns \<^verbatim>\<open>W\<close> and \<^verbatim>\<open>H\<close> and
  rebuilds the pool. But the count is a constant that keeps its value from the script's
  load. The script runs in a window of 700 by 700 and the window is then resized to 3000
  by 3000: the pool has 20 particles, not the 129 that
  \<open>max(20, round(3000 * 3000 / 70000))\<close> asks for.
\<close>

theorem resize_keeps_pool_size:
  "length (pool (step (Resize 3000 3000) (load 700 700 False True (const_rng 0)))) = 20 \<and>
   nat (max 20 (js_round (real (3000 * 3000) / 70000))) = 129"
  using pool_size_reachable[of "[Resize 3000 3000]" 700 700 False True "const_rng 0"]
  by (simp add: js_round_def)

text \<open>
  Claim C2. When the reduced-motion preference is true, no run ever sets \<^verbatim>\<open>rafId\<close>
  (the loop is never running), no call \<^verbatim>\<open>requestAnimationFrame(render)\<close> is ever
  made, and no request for \<^verbatim>\<open>render\<close> is ever outstanding: neither the initial
  start, nor checking the motion toggle, nor the document becoming visible starts the loop.
\<close>

theorem reduced_motion_never_requests:
  "rafId (run es (load w h True chk g)) = None \<and>
   loop_requests (run es (load w h True chk g)) = 0 \<and>
   loop_handles (callbacks (run es (load w h True chk g))) = []"
  by (simp add: reduced_reachable)

text \<open>
  Claim C3, as the code has it. Unchecking the motion toggle cancels the pending request
  for \<^verbatim>\<open>render\<close>, clears \<^verbatim>\<open>rafId\<close> and clears the surface. The document becoming
  hidden cancels the pending request and clears \<^verbatim>\<open>rafId\<close> too, but it is a pause: it
  leaves the surface as it was.
\<close>

theorem stop_cancels_and_toggle_clears:
  "(let s = run es (load w h reduced chk g);
        s1 = step (MotionToggle False) s;
        s2 = step (VisibilityChange True) s
    in rafId s1 = None \<and> loop_handles (callbacks s1) = [] \<and> surface s1 = [] \<and>
       rafId s2 = None \<and> loop_handles (callbacks s2) = [] \<and> surface s2 = surface s)"
  using stop_toggle[OF loop_inv_reachable, of es w h reduced chk g]
    stop_hidden[OF loop_inv_reachable, of es w h reduced chk g]
  by (simp add: Let_def)

text \<open>
  The claim as stated fails: after the script has run with motion allowed, the document
  becoming hidden leaves the last frame on the surface.
\<close>

theorem hidden_keeps_last_frame:
  "surface (step (VisibilityChange True) (load 700 700 False True (const_rng 0))) \<noteq> []"
  using stop_hidden[OF loop_inv_load, of 700 700 False True "const_rng 0"]
  by (simp add: surface_load_running)

text \<open>
  Claim C4, as the code has it. Every burst runs for exactly \<open>\<lceil>420 / 16\<rceil> = 27\<close> ticks.
  The \<open>i\<close>-th tick paints with \<open>progress = 16 i / 420\<close>, so progress increases strictly
  from tick to tick; it lies strictly between 0 and 1 on the first 26 ticks and is
  \<open>432 / 420 = 36 / 35\<close>, above 1, on the 27th, which is painted like the others. With
  no other request outstanding, one request of the burst is outstanding after each of the
  first 26 frames and none from the 27th on, and the surface has gained the glows of the
  ticks run so far.
\<close>

theorem burst_tick_sequence:
  "map progress (chain (spawn el)) = map (\<lambda>i. real (16 * i) / 420) [1 ..< 28] \<and>
   length (chain (spawn el)) = nat \<lceil>real_of_int duration / 16\<rceil> \<and>
   sorted_wrt (<) (map progress (chain (spawn el))) \<and>
   list_all (\<lambda>v. 0 < v \<and> v < 1) (take 26 (map progress (chain (spawn el)))) \<and>
   progress (last (chain (spawn el))) = 36 / 35 \<and>
   map snd (callbacks (run (replicate j AnimationFrame) (burstLight el (s\<lparr>callbacks := []\<rparr>))))
     = (if j < 27 then [CbFrame ((tick ^^ j) (spawn el))] else []) \<and>
   surface (run (replicate j AnimationFrame) (burstLight el (s\<lparr>callbacks := []\<rparr>)))
     = surface s @ map glow (take j (chain (spawn el)))"
proof -
  have a: "map progress (chain (spawn el)) = map (\<lambda>i. real (16 * i) / 420) [1 ..< 28]"
    by (rule chain_spawn_progress)
  have b: "length (chain (spawn el)) = nat \<lceil>real_of_int duration / 16\<rceil>"
    by (simp only: chain_spawn_length ticks_ceiling)
  have c: "sorted_wrt (<) (map progress (chain (spawn el)))"
    unfolding a by (rule progress_sorted)
  have d: "list_all (\<lambda>v. 0 < v \<and> v < 1) (take 26 (map progress (chain (spawn el))))"
    unfolding a take_progress by (rule progress_early)
  from a b c d chain_spawn_last_progress[of el] burst_alone[of j el s] show ?thesis
    by blast
qed

text \<open>
  The claim as stated fails on the last painted tick, whose progress is not within
  \<open>[0, 1]\<close>.
\<close>

theorem last_tick_progress_above_one: "1 < progress (last (chain (spawn key0)))"
  by (simp add: chain_spawn_last_progress)

text \<open>
  Claim C5, as the code has it. Take a particle whose age does not exceed its \<open>ttl\<close> and
  whose \<open>y\<close> stays within the bound. After \<open>\<lfloor>ttl\<rfloor> - life\<close> calls of \<^verbatim>\<open>update\<close>
  (\<open>\<lfloor>ttl\<rfloor>\<close> calls for a fresh particle) none has reset it and its age is \<open>\<lfloor>ttl\<rfloor>\<close>,
  which does not exceed \<open>ttl\<close>; the next call increments the age past \<open>ttl\<close> and resets
  the particle within that call: age is 0 again, and ttl, colour, alpha, spin and
  position are the ones \<^verbatim>\<open>reset\<close> draws.
\<close>

theorem ttl_expiry_resets:
  assumes "real_of_int (life p) \<le> ttl p" and "n = nat (\<lfloor>ttl p\<rfloor> - life p)"
    and "y_within (Suc n) h p"
  shows "update_n n w h pal g p = ((advance ^^ n) p, g)
       \<and> life ((advance ^^ n) p) = \<lfloor>ttl p\<rfloor>
       \<and> \<not> real_of_int (life ((advance ^^ n) p)) > ttl ((advance ^^ n) p)
       \<and> update_n (Suc n) w h pal g p = reset w h pal g ((advance ^^ Suc n) p)
       \<and> life (fst (update_n (Suc n) w h pal g p)) = 0"
proof -
  from assms(1) have le: "life p \<le> \<lfloor>ttl p\<rfloor>" by (simp add: le_floor_iff)
  with assms(2) have n: "life p + int n = \<lfloor>ttl p\<rfloor>" by simp
  have "real_of_int (life p + int n) \<le> ttl p" unfolding n by simp
  with y_within_mono[OF assms(3)] have sv: "survives n h p" by (rule survivesI)
  then have run: "update_n n w h pal g p = ((advance ^^ n) p, g)" by (rule update_n_survives)
  have lf: "life ((advance ^^ n) p) = \<lfloor>ttl p\<rfloor>" using n by (simp add: advance_pow_fields)
  have "real_of_int (life (advance ((advance ^^ n) p))) > ttl (advance ((advance ^^ n) p))"
    using lf by (simp add: advance_fields advance_pow_fields)
  then have "expired h (advance ((advance ^^ n) p))" by (simp add: expired_def)
  then have "update w h pal g ((advance ^^ n) p) = reset w h pal g ((advance ^^ Suc n) p)"
    by (simp add: update_expired)
  with run have fin: "update_n (Suc n) w h pal g p = reset w h pal g ((advance ^^ Suc n) p)"
    by (simp only: update_n_Suc_end split: prod.splits) simp
  have nx: "\<not> real_of_int (life ((advance ^^ n) p)) > ttl ((advance ^^ n) p)"
    unfolding lf by (simp add: advance_pow_fields not_less)
  have z: "life (fst (update_n (Suc n) w h pal g p)) = 0"
    unfolding fin by (rule reset_fields)
  from run lf nx fin z show ?thesis by blast
qed

theorem ttl_expiry_resets_witness:
  "real_of_int (life fresh0) \<le> ttl fresh0 \<and> (80::nat) = nat (\<lfloor>ttl fresh0\<rfloor> - life fresh0) \<and>
   y_within (Suc 80) 1000 fresh0 \<and>
   update_n 80 1000 1000 palette0 (const_rng 0) fresh0 = ((advance ^^ 80) fresh0, const_rng 0) \<and>
   life ((advance ^^ 80) fresh0) = \<lfloor>ttl fresh0\<rfloor> \<and>
   \<not> real_of_int (life ((advance ^^ 80) fresh0)) > ttl ((advance ^^ 80) fresh0) \<and>
   update_n (Suc 80) 1000 1000 palette0 (const_rng 0) fresh0
     = reset 1000 1000 palette0 (const_rng 0) ((advance ^^ Suc 80) fresh0) \<and>
   life (fst (update_n (Suc 80) 1000 1000 palette0 (const_rng 0) fresh0)) = 0"
proof -
  have a: "real_of_int (life fresh0) \<le> ttl fresh0" by (simp add: fresh0_fields)
  have b: "(80::nat) = nat (\<lfloor>ttl fresh0\<rfloor> - life fresh0)" by (simp add: fresh0_fields)
  have c: "y_within (Suc 80) 1000 fresh0" by (rule y_withinI) (simp_all add: fresh0_fields)
  from ttl_expiry_resets[OF a b c, of 1000 palette0 "const_rng 0"] a b c show ?thesis by blast
qed

text \<open>
  The claim as stated fails: a fresh particle with \<open>ttl = 80\<close> has age 80 after 80
  calls of \<^verbatim>\<open>update\<close>, and 80 does not exceed its \<open>ttl\<close>.
\<close>

theorem age_never_exceeds_ttl_example:
  "\<not> real_of_int (life (fst (update_n 80 1000 1000 palette0 (const_rng 0) fresh0)))
       > ttl (fst (update_n 80 1000 1000 palette0 (const_rng 0) fresh0))"
proof -
  have "y_within 80 1000 fresh0" by (rule y_withinI) (simp_all add: fresh0_fields)
  then have "survives 80 1000 fresh0" by (rule survivesI) (simp add: fresh0_fields)
  then have "update_n 80 1000 1000 palette0 (const_rng 0) fresh0 = ((advance ^^ 80) fresh0, const_rng 0)"
    by (rule update_n_survives)
  then show ?thesis by (simp add: advance_pow_fields fresh0_fields)
qed

text \<open>
  Claim C6. Whatever the particle's age, if its \<open>y\<close> exceeds \<^verbatim>\<open>H + 20\<close> once
  \<^verbatim>\<open>update\<close> has advanced the position, that same call resets it.
\<close>

theorem overflow_resets_same_call:
  "y (advance p) > real h + 20 \<Longrightarrow>
     update w h pal g p = reset w h pal g (advance p) \<and> life (fst (update w h pal g p)) = 0"
  by (simp add: update_expired expired_def reset_fields)

theorem overflow_resets_same_call_witness:
  "y (advance falling0) > real 1000 + 20 \<and>
   update 1000 1000 palette0 (const_rng 0) falling0
     = reset 1000 1000 palette0 (const_rng 0) (advance falling0) \<and>
   life (fst (update 1000 1000 palette0 (const_rng 0) falling0)) = 0"
proof -
  have h: "y (advance falling0) > real 1000 + 20"
    by (simp add: advance_fields falling0_def)
  from overflow_resets_same_call[OF h, of 1000 palette0 "const_rng 0"] h show ?thesis by blast
qed

text \<open>
  Claim C7. In any reachable state, a click on the randomize button replaces every one of
  the four palette entries by a freshly drawn colour and touches no array and no particle.
  Afterwards a particle keeps its colour through every call of \<^verbatim>\<open>update\<close> that does
  not reset it, and a call that resets it gives it an entry of the new palette: the
  particle holds a colour value of its own, not a reference into the palette.
\<close>

theorem randomize_touches_future_resets_only:
  "rng_ok g \<Longrightarrow> survives n h p \<Longrightarrow> expired h' (advance q) \<Longrightarrow>
     store (step RandomizeClick (run es (load wl hl reduced chk gl)))
       = store (run es (load wl hl reduced chk gl)) \<and>
     particles (step RandomizeClick (run es (load wl hl reduced chk gl)))
       = particles (run es (load wl hl reduced chk gl)) \<and>
     palette (step RandomizeClick (run es (load wl hl reduced chk gl)))
       = map (new_entry (rnd (run es (load wl hl reduced chk gl)))) [0 ..< 4] \<and>
     color (fst (update_n n w h
        (palette (step RandomizeClick (run es (load wl hl reduced chk gl)))) g p)) = color p \<and>
     nat \<lfloor>g 6 * 4\<rfloor> < 4 \<and>
     color (fst (update w' h'
        (palette (step RandomizeClick (run es (load wl hl reduced chk gl)))) g q))
       = Some (new_entry (rnd (run es (load wl hl reduced chk gl))) (nat \<lfloor>g 6 * 4\<rfloor>))"
proof -
  assume g: "rng_ok g" and sv: "survives n h p" and ex: "expired h' (advance q)"
  let ?s = "run es (load wl hl reduced chk gl)"
  let ?s' = "step RandomizeClick ?s"
  have len: "length (palette ?s) = 4" by (rule palette_reachable_length)
  have pal: "palette ?s' = map (new_entry (rnd ?s)) [0 ..< 4]"
    by (simp add: randomizeBtn_click_fields randomize_map len)
  have len': "length (palette ?s') = 4" unfolding pal by simp
  then have ne: "palette ?s' \<noteq> []" by auto
  have st: "store ?s' = store ?s" "particles ?s' = particles ?s"
    by (simp_all add: randomizeBtn_click_fields)
  have keep: "color (fst (update_n n w h (palette ?s') g p)) = color p"
    using sv by (rule update_n_color)
  have idx: "nat \<lfloor>g 6 * 4\<rfloor> < 4"
    using reset_color(1)[OF g ne] len' by simp
  have "color (fst (update w' h' (palette ?s') g q))
          = Some (palette ?s' ! nat \<lfloor>g 6 * real (length (palette ?s'))\<rfloor>)"
    using ex reset_color(2)[OF g ne] by (simp add: update_expired)
  also have "\<dots> = Some (palette ?s' ! nat \<lfloor>g 6 * 4\<rfloor>)" unfolding len' by simp
  also have "\<dots> = Some (new_entry (rnd ?s) (nat \<lfloor>g 6 * 4\<rfloor>))"
    unfolding pal using idx by simp
  finally have new: "color (fst (update w' h' (palette ?s') g q))
          = Some (new_entry (rnd ?s) (nat \<lfloor>g 6 * 4\<rfloor>))" .
  from st pal keep idx new show ?thesis by blast
qed

theorem randomize_touches_future_resets_only_witness:
  "rng_ok (const_rng 0) \<and> survives 80 1000 fresh0 \<and> expired 1000 (advance falling0) \<and>
   store (step RandomizeClick (run [] (load 700 700 True True (const_rng 0))))
     = store (run [] (load 700 700 True True (const_rng 0))) \<and>
   particles (step RandomizeClick (run [] (load 700 700 True True (const_rng 0))))
     = particles (run [] (load 700 700 True True (const_rng 0))) \<and>
   palette (step RandomizeClick (run [] (load 700 700 True True (const_rng 0))))
     = map (new_entry (rnd (run [] (load 700 700 True True (const_rng 0))))) [0 ..< 4] \<and>
   color (fst (update_n 80 1000 1000
      (palette (step RandomizeClick (run [] (load 700 700 True True (const_rng 0)))))
      (const_rng 0) fresh0)) = color fresh0 \<and>
   nat \<lfloor>const_rng 0 6 * 4\<rfloor> < 4 \<and>
   color (fst (update 1000 1000
      (palette (step RandomizeClick (run [] (load 700 700 True True (const_rng 0)))))
      (const_rng 0) falling0))
     = Some (new_entry (rnd (run [] (load 700 700 True True (const_rng 0))))
         (nat \<lfloor>const_rng 0 6 * 4\<rfloor>))"
proof -
  have a: "rng_ok (const_rng 0)" by (simp add: const_rng_ok)
  note b = survives_fresh0 and c = expired_falling0
  from randomize_touches_future_resets_only[OF a b c, where es = "[]" and wl = 700 and hl = 700 and reduced = True
      and chk = True and gl = "const_rng 0" and w = 1000 and w' = 1000] a b c
  show ?thesis by blast
qed

text \<open>
  Claim C8. In every reachable state the outstanding requests for \<^verbatim>\<open>render\<close> are
  exactly the one \<^verbatim>\<open>rafId\<close> names, or none when \<^verbatim>\<open>rafId\<close> is \<^verbatim>\<open>null\<close>: the handle
  is present exactly while a request is outstanding, and there is never more than one.
  Where the loop can start at all, that is with the reduced-motion preference false,
  checking the motion toggle from any reachable state, running or not, leaves exactly one
  request outstanding, and so does checking it twice in a row. (Under reduced motion a
  start requests nothing: that is claim C2.)
\<close>

theorem at_most_one_request:
  "loop_handles (callbacks (run es (load w h reduced chk g)))
     = handle_list (rafId (run es (load w h reduced chk g))) \<and>
   length (loop_handles (callbacks (run es (load w h reduced chk g)))) \<le> 1 \<and>
   length (loop_handles (callbacks
      (run (es @ [MotionToggle True]) (load w h False chk g)))) = 1 \<and>
   length (loop_handles (callbacks
      (run (es @ [MotionToggle True, MotionToggle True]) (load w h False chk g)))) = 1"
proof -
  let ?s = "run es (load w h reduced chk g)"
  have i: "loop_inv ?s" by (rule loop_inv_reachable)
  have a: "loop_handles (callbacks ?s) = handle_list (rafId ?s)"
    using i by (simp add: loop_inv_def)
  have b: "length (loop_handles (callbacks ?s)) \<le> 1"
    using loop_inv_count[OF i] by simp
  have c: "length (loop_handles (callbacks
      (run (es @ [MotionToggle True]) (load w h False chk g)))) = 1"
    by (rule started_count)
  have "length (loop_handles (callbacks
      (run ((es @ [MotionToggle True]) @ [MotionToggle True]) (load w h False chk g)))) = 1"
    by (rule started_count)
  then have d: "length (loop_handles (callbacks
      (run (es @ [MotionToggle True, MotionToggle True]) (load w h False chk g)))) = 1"
    by simp
  from a b c d show ?thesis by blast
qed

text \<open>
  Claim C9 fails on the code. \<^verbatim>\<open>window._TecladoHielo.particles\<close> is the reference the
  variable \<^verbatim>\<open>particles\<close> held when the script ended; \<^verbatim>\<open>initParticles\<close> stores a new
  array in the variable and leaves the exposed reference on the old one. After the
  script has run in a window of 700 by 700 and the window is resized to 800 by 600, the
  exposed reference is the array at address 1 and the loop's pool is the array at
  address 2.
\<close>

theorem exposed_pool_stale_after_resize:
  "api_particles (step (Resize 800 600) (load 700 700 False True (const_rng 0))) = Some 1 \<and>
   particles (step (Resize 800 600) (load 700 700 False True (const_rng 0))) = 2"
  by (simp add: resize_fields load_addresses)

text \<open>
  Claim C10. Every particle of the pool, in every reachable state, has
  \<open>0 \<le> life \<le> ttl\<close>, and so has the particle any call of \<^verbatim>\<open>update\<close> on it returns:
  the call resets the particle whenever the increment takes \<open>life\<close> past \<open>ttl\<close>, so
  no call returns with \<open>life\<close> above \<open>ttl\<close>.
\<close>

theorem life_within_ttl:
  "rng_ok g \<Longrightarrow> p \<in> set (pool (run es (load w h reduced chk g))) \<Longrightarrow> rng_ok g' \<Longrightarrow>
     0 \<le> life p \<and> real_of_int (life p) \<le> ttl p \<and>
     0 \<le> life (fst (update w' h' pal' g' p)) \<and>
     real_of_int (life (fst (update w' h' pal' g' p))) \<le> ttl (fst (update w' h' pal' g' p))"
proof -
  assume g: "rng_ok g" and p: "p \<in> set (pool (run es (load w h reduced chk g)))"
    and g': "rng_ok g'"
  from pool_ok_reachable[OF g, of es w h reduced chk] p have ok: "particle_ok p"
    by (simp add: list_all_iff)
  then have "0 \<le> life p" by (simp add: particle_ok_def)
  with g' have "particle_ok (fst (update w' h' pal' g' p))" by (rule update_ok)
  with ok show ?thesis by (simp add: particle_ok_def)
qed

theorem life_within_ttl_witness:
  "rng_ok (const_rng 0) \<and>
   fst (new_particle 1000 1000 palette0 (const_rng 0))
     \<in> set (pool (run [] (load 1000 1000 True True (const_rng 0)))) \<and>
   0 \<le> life (fst (new_particle 1000 1000 palette0 (const_rng 0))) \<and>
   real_of_int (life (fst (new_particle 1000 1000 palette0 (const_rng 0))))
     \<le> ttl (fst (new_particle 1000 1000 palette0 (const_rng 0))) \<and>
   0 \<le> life (fst (update 1000 1000 palette0 (const_rng 0)
                  (fst (new_particle 1000 1000 palette0 (const_rng 0))))) \<and>
   real_of_int (life (fst (update 1000 1000 palette0 (const_rng 0)
                  (fst (new_particle 1000 1000 palette0 (const_rng 0))))))
     \<le> ttl (fst (update 1000 1000 palette0 (const_rng 0)
                  (fst (new_particle 1000 1000 palette0 (const_rng 0)))))"
proof -
  have a: "rng_ok (const_rng 0)" by (simp add: const_rng_ok)
  have b: "fst (new_particle 1000 1000 palette0 (const_rng 0))
     \<in> set (pool (run [] (load 1000 1000 True True (const_rng 0))))"
    by (simp add: pool_load_reduced make_hd)
  from life_within_ttl[OF a b a, of 1000 1000 palette0] a b show ?thesis by blast
qed

end
